theory Spec2Isabelle
  imports Main
begin

section \<open>Python strings\<close>

text \<open>
  A Python \<open>str\<close> is a sequence of Unicode code points, so a string is a list of
  natural numbers and \<open>length\<close> is Python's \<open>len\<close>. String literals of the source
  that are plain ASCII are written \<open>u ''...''\<close>; other characters are given by their
  code point.
\<close>

type_synonym ustr = "nat list"

definition u :: "string \<Rightarrow> ustr" where
  "u s = map of_char s"

text \<open>
  The Unicode character database that CPython consults (\<open>str.lower\<close>, \<open>str.upper\<close>,
  \<open>str.isspace\<close>, \<open>str.isdigit\<close>, the classes \<open>\s\<close>, \<open>\d\<close>, \<open>\w\<close> of \<open>re\<close>) is no part
  of the repository. It is a parameter of every function that reads it:
  \<open>str_lower\<close> and \<open>str_upper\<close> are the string-level case mappings, the other fields
  are the character predicates \<open>Py_UNICODE_ISSPACE\<close> (used by \<open>strip\<close>, \<open>split\<close> and
  \<open>\s\<close>), \<open>ISDECIMAL\<close> (\<open>\d\<close>), \<open>ISDIGIT\<close>, \<open>ISALNUM\<close> (\<open>\w\<close> is alphanumeric or
  underscore), \<open>ISUPPER\<close>, \<open>ISLOWER\<close> and \<open>ISTITLE\<close>.
\<close>

record unicode =
  str_lower :: "ustr \<Rightarrow> ustr"
  str_upper :: "ustr \<Rightarrow> ustr"
  ch_isspace :: "nat \<Rightarrow> bool"
  ch_isdecimal :: "nat \<Rightarrow> bool"
  ch_isdigit :: "nat \<Rightarrow> bool"
  ch_isalnum :: "nat \<Rightarrow> bool"
  ch_isupper :: "nat \<Rightarrow> bool"
  ch_islower :: "nat \<Rightarrow> bool"
  ch_istitle :: "nat \<Rightarrow> bool"

text \<open>
  The table restricted to the Basic Latin block (code points below 128), where it
  agrees with CPython; every other code point is left uncased and unclassified. It is
  used to evaluate the functions on ASCII inputs.
\<close>

definition ascii_lower :: "nat \<Rightarrow> nat" where
  "ascii_lower c = (if 65 \<le> c \<and> c \<le> 90 then c + 32 else c)"

definition ascii_upper :: "nat \<Rightarrow> nat" where
  "ascii_upper c = (if 97 \<le> c \<and> c \<le> 122 then c - 32 else c)"

definition ascii_isspace :: "nat \<Rightarrow> bool" where
  "ascii_isspace c = ((9 \<le> c \<and> c \<le> 13) \<or> (28 \<le> c \<and> c \<le> 32))"

definition ascii_isdigit :: "nat \<Rightarrow> bool" where
  "ascii_isdigit c = (48 \<le> c \<and> c \<le> 57)"

definition ascii_isupper :: "nat \<Rightarrow> bool" where
  "ascii_isupper c = (65 \<le> c \<and> c \<le> 90)"

definition ascii_islower :: "nat \<Rightarrow> bool" where
  "ascii_islower c = (97 \<le> c \<and> c \<le> 122)"

definition basic_latin :: unicode where
  "basic_latin = \<lparr>
     str_lower = map ascii_lower,
     str_upper = map ascii_upper,
     ch_isspace = ascii_isspace,
     ch_isdecimal = ascii_isdigit,
     ch_isdigit = ascii_isdigit,
     ch_isalnum = (\<lambda>c. ascii_isdigit c \<or> ascii_isupper c \<or> ascii_islower c),
     ch_isupper = ascii_isupper,
     ch_islower = ascii_islower,
     ch_istitle = (\<lambda>c. False) \<rparr>"

subsection \<open>String methods\<close>

definition py_strip :: "unicode \<Rightarrow> ustr \<Rightarrow> ustr" where
  "py_strip U s = rev (dropWhile (ch_isspace U) (rev (dropWhile (ch_isspace U) s)))"

text \<open>\<open>s.split()\<close>: the maximal runs of non-whitespace characters.\<close>

fun split_ws :: "(nat \<Rightarrow> bool) \<Rightarrow> ustr \<Rightarrow> ustr \<Rightarrow> ustr list" where
  "split_ws sp cur [] = (if cur = [] then [] else [rev cur])"
| "split_ws sp cur (c # cs) =
     (if sp c then (if cur = [] then split_ws sp [] cs else rev cur # split_ws sp [] cs)
      else split_ws sp (c # cur) cs)"

definition py_split :: "unicode \<Rightarrow> ustr \<Rightarrow> ustr list" where
  "py_split U s = split_ws (ch_isspace U) [] s"

fun starts_with :: "ustr \<Rightarrow> ustr \<Rightarrow> bool" where
  "starts_with s [] = True"
| "starts_with [] (p # ps) = False"
| "starts_with (c # cs) (p # ps) = (c = p \<and> starts_with cs ps)"

text \<open>\<open>p in s\<close> for strings: \<open>p\<close> occurs in \<open>s\<close> as a substring.\<close>

fun py_in :: "ustr \<Rightarrow> ustr \<Rightarrow> bool" where
  "py_in p [] = (p = [])"
| "py_in p (c # cs) = (starts_with (c # cs) p \<or> py_in p cs)"

text \<open>
  \<open>s.replace(old, new)\<close> for a non-empty \<open>old\<close> (the source only passes the literals
  \<open>"\n"\<close>, \<open>"ABSTRACT:"\<close> and \<open>"Abstract:"\<close>): occurrences are replaced from the left,
  without overlap.
\<close>

fun py_replace :: "ustr \<Rightarrow> ustr \<Rightarrow> ustr \<Rightarrow> ustr" where
  "py_replace old new [] = []"
| "py_replace old new (c # cs) =
     (if old \<noteq> [] \<and> starts_with (c # cs) old
      then new @ py_replace old new (drop (length old - 1) cs)
      else c # py_replace old new cs)"

fun py_join :: "ustr \<Rightarrow> ustr list \<Rightarrow> ustr" where
  "py_join sep [] = []"
| "py_join sep [x] = x"
| "py_join sep (x # y # ys) = x @ sep @ py_join sep (y # ys)"

text \<open>\<open>s.split(sep)\<close> for a non-empty separator: empty pieces are kept.\<close>

fun split_sep :: "ustr \<Rightarrow> ustr \<Rightarrow> ustr \<Rightarrow> ustr list" where
  "split_sep sep cur [] = [rev cur]"
| "split_sep sep cur (c # cs) =
     (if starts_with (c # cs) sep
      then rev cur # split_sep sep [] (drop (length sep - 1) cs)
      else split_sep sep (c # cur) cs)"

text \<open>
  \<open>str.islower\<close> and \<open>str.isupper\<close> as CPython computes them: a one-character string
  is decided by the character predicate; otherwise no character may be of the other
  case or title case, and one cased character of the right case is needed.
\<close>

fun islower_scan :: "unicode \<Rightarrow> bool \<Rightarrow> ustr \<Rightarrow> bool" where
  "islower_scan U cased [] = cased"
| "islower_scan U cased (c # cs) =
     (if ch_isupper U c \<or> ch_istitle U c then False
      else islower_scan U (cased \<or> ch_islower U c) cs)"

definition py_islower :: "unicode \<Rightarrow> ustr \<Rightarrow> bool" where
  "py_islower U s = (case s of [c] \<Rightarrow> ch_islower U c | _ \<Rightarrow> islower_scan U False s)"

fun isupper_scan :: "unicode \<Rightarrow> bool \<Rightarrow> ustr \<Rightarrow> bool" where
  "isupper_scan U cased [] = cased"
| "isupper_scan U cased (c # cs) =
     (if ch_islower U c \<or> ch_istitle U c then False
      else isupper_scan U (cased \<or> ch_isupper U c) cs)"

definition py_isupper :: "unicode \<Rightarrow> ustr \<Rightarrow> bool" where
  "py_isupper U s = (case s of [c] \<Rightarrow> ch_isupper U c | _ \<Rightarrow> isupper_scan U False s)"

definition py_isdigit :: "unicode \<Rightarrow> ustr \<Rightarrow> bool" where
  "py_isdigit U s = (s \<noteq> [] \<and> list_all (ch_isdigit U) s)"

section \<open>Regular expressions\<close>

text \<open>
  The patterns of the source are data: a pattern is a value of \<open>rx\<close>, and one
  backtracking matcher serves all of them. \<open>Cls p\<close> is one character of a class,
  \<open>Bol\<close> and \<open>Eol\<close> are \<open>^\<close> and \<open>$\<close> (no \<open>MULTILINE\<close> flag in the source), \<open>WordB w\<close>
  is \<open>\b\<close> for the word characters \<open>w\<close>; \<open>Opt\<close>, \<open>Star\<close> and \<open>Plus\<close> are the greedy
  \<open>?\<close>, \<open>*\<close> and \<open>+\<close>.
\<close>

datatype rx =
    Eps
  | Cls "nat \<Rightarrow> bool"
  | Bol
  | Eol
  | WordB "nat \<Rightarrow> bool"
  | Seq rx rx
  | Alt rx rx
  | Opt rx
  | Star rx
  | Plus rx

text \<open>
  A matcher state is the character before the current position (\<open>None\<close> at the start
  of the string) and the rest of the string.
\<close>

type_synonym mstate = "nat option \<times> ustr"

text \<open>
  The greedy iteration of a step \<open>f\<close>: longer iterations come first (the order in
  which a backtracking matcher tries them), an iteration that consumes nothing is not
  repeated, and the fuel is the length of the remaining string.
\<close>

fun star_iter :: "(mstate \<Rightarrow> mstate list) \<Rightarrow> nat \<Rightarrow> mstate \<Rightarrow> mstate list" where
  "star_iter f 0 st = [st]"
| "star_iter f (Suc n) st =
     concat (map (star_iter f n)
       (filter (\<lambda>e. length (snd e) < length (snd st)) (f st))) @ [st]"

definition word_at :: "(nat \<Rightarrow> bool) \<Rightarrow> nat option \<Rightarrow> bool" where
  "word_at w c = (case c of None \<Rightarrow> False | Some x \<Rightarrow> w x)"

definition next_char :: "ustr \<Rightarrow> nat option" where
  "next_char s = (case s of [] \<Rightarrow> None | c # _ \<Rightarrow> Some c)"

text \<open>
  \<open>rx_ends r st\<close> lists the states in which a match of \<open>r\<close> that starts in \<open>st\<close> can
  end, in the matcher's order of preference.
\<close>

primrec rx_ends :: "rx \<Rightarrow> mstate \<Rightarrow> mstate list" where
  "rx_ends Eps st = [st]"
| "rx_ends (Cls p) st =
     (case snd st of [] \<Rightarrow> [] | c # cs \<Rightarrow> if p c then [(Some c, cs)] else [])"
| "rx_ends Bol st = (if fst st = None then [st] else [])"
| "rx_ends Eol st = (if snd st = [] \<or> snd st = [10] then [st] else [])"
| "rx_ends (WordB w) st =
     (if word_at w (fst st) \<noteq> word_at w (next_char (snd st)) then [st] else [])"
| "rx_ends (Seq a b) st = concat (map (rx_ends b) (rx_ends a st))"
| "rx_ends (Alt a b) st = rx_ends a st @ rx_ends b st"
| "rx_ends (Opt a) st = rx_ends a st @ [st]"
| "rx_ends (Star a) st = star_iter (rx_ends a) (length (snd st)) st"
| "rx_ends (Plus a) st =
     concat (map (\<lambda>e. star_iter (rx_ends a) (length (snd e)) e) (rx_ends a st))"

text \<open>\<open>re.search(r, s)\<close> as a truth value: some position of \<open>s\<close> starts a match.\<close>

fun search_from :: "rx \<Rightarrow> nat option \<Rightarrow> ustr \<Rightarrow> bool" where
  "search_from r p [] = (rx_ends r (p, []) \<noteq> [])"
| "search_from r p (c # cs) = (rx_ends r (p, c # cs) \<noteq> [] \<or> search_from r (Some c) cs)"

definition re_search :: "rx \<Rightarrow> ustr \<Rightarrow> bool" where
  "re_search r s = search_from r None s"

text \<open>
  \<open>re.sub(r, repl, s)\<close>: scanning from the left, the preferred match at the first
  position that has one is replaced and the scan goes on behind it. The replacement
  is a function of the matched text (the group references of the source are single
  characters at fixed places of the match). No pattern that the source substitutes
  matches the empty string, so an empty match is treated as no match.
\<close>

function sub_from :: "rx \<Rightarrow> (ustr \<Rightarrow> ustr) \<Rightarrow> nat option \<Rightarrow> ustr \<Rightarrow> ustr" where
  "sub_from r repl p [] = []"
| "sub_from r repl p (c # cs) =
     (case rx_ends r (p, c # cs) of
        [] \<Rightarrow> c # sub_from r repl (Some c) cs
      | e # _ \<Rightarrow>
          if length (snd e) \<le> length cs
          then repl (take (Suc (length cs) - length (snd e)) (c # cs)) @
               sub_from r repl (fst e) (snd e)
          else c # sub_from r repl (Some c) cs)"
  by pat_completeness auto
termination
  by (relation "measure (\<lambda>(r, repl, p, s). length s)") auto

definition re_sub :: "rx \<Rightarrow> (ustr \<Rightarrow> ustr) \<Rightarrow> ustr \<Rightarrow> ustr" where
  "re_sub r repl s = sub_from r repl None s"

subsection \<open>Pattern syntax\<close>

definition rng :: "nat \<Rightarrow> nat \<Rightarrow> nat \<Rightarrow> bool" where
  "rng a b c = (a \<le> c \<and> c \<le> b)"

definition among :: "ustr \<Rightarrow> nat \<Rightarrow> bool" where
  "among cs c = (c \<in> set cs)"

definition rx_seq :: "rx list \<Rightarrow> rx" where
  "rx_seq rs = foldr Seq rs Eps"

definition rx_lit :: "ustr \<Rightarrow> rx" where
  "rx_lit s = rx_seq (map (\<lambda>c. Cls (\<lambda>x. x = c)) s)"

definition rx_upper :: rx where "rx_upper = Cls (rng 65 90)"
definition rx_lower :: rx where "rx_lower = Cls (rng 97 122)"
definition rx_dot :: rx where "rx_dot = Cls (\<lambda>c. c \<noteq> 10)"
definition rx_space :: "unicode \<Rightarrow> rx" where "rx_space U = Cls (ch_isspace U)"
definition rx_digit :: "unicode \<Rightarrow> rx" where "rx_digit U = Cls (ch_isdecimal U)"

definition is_word :: "unicode \<Rightarrow> nat \<Rightarrow> bool" where
  "is_word U c = (ch_isalnum U c \<or> c = 95)"

definition rx_word :: "unicode \<Rightarrow> rx" where "rx_word U = Cls (is_word U)"


section \<open>Block noise classifier\<close>

subsection \<open>\<open>_is_author_line\<close>\<close>

text \<open>\<open>[A-Z][a-z]+ [A-Z][a-z]+\<close>, the capitalised pair that the patterns share.\<close>

definition name_pair :: rx where
  "name_pair = rx_seq [rx_upper, Plus rx_lower, Cls (\<lambda>c. c = 32), rx_upper, Plus rx_lower]"

text \<open>
  The superscript digits and letters, \<open>*\<close> and the footnote signs (dagger 8224,
  double dagger 8225, section sign 167, pilcrow 182) of the second pattern.
\<close>

definition affiliation_markers :: ustr where
  "affiliation_markers =
     [185, 178, 179, 8308, 8309, 8310, 8311, 8312, 8313, 8304,
      7491, 7495, 7580, 7496, 7497, 7584, 7501, 688, 8305, 690, 7503, 737, 7504,
      8319, 7506, 7510, 691, 738, 7511, 7512, 7515, 695, 739, 696, 7611,
      42, 8224, 8225, 167, 182]"

definition author_patterns :: "unicode \<Rightarrow> rx list" where
  "author_patterns U =
     [rx_seq [Bol, name_pair,
        Plus (rx_seq [rx_lit (u '',''), Star (rx_space U), name_pair])],
      rx_seq [name_pair, Plus (Cls (among affiliation_markers))],
      rx_seq [Bol, Plus (rx_digit U), Star (rx_space U), name_pair],
      rx_seq [rx_upper, Plus rx_lower, Plus (rx_space U), rx_upper, Plus rx_lower,
        Opt (rx_lit (u '','')), Star (rx_space U),
        Alt (rx_lit (u ''PhD'')) (Alt (rx_lit (u ''Ph.D.'')) (Alt (rx_lit (u ''MD''))
          (Alt (rx_lit (u ''Dr.'')) (Alt (rx_lit (u ''Prof.'')) (rx_lit (u ''Professor''))))))]]"

text \<open>
  The name-word test of the loop over \<open>content.split()\<close>: the word without its
  non-word characters is longer than one character, starts in upper case, continues in
  lower case and is longer than two characters.
\<close>

definition is_name_word :: "unicode \<Rightarrow> ustr \<Rightarrow> bool" where
  "is_name_word U word =
     (let clean_word = re_sub (Cls (\<lambda>c. \<not> is_word U c)) (\<lambda>m. []) word in
      case clean_word of
        [] \<Rightarrow> False
      | c # rest \<Rightarrow>
          length clean_word > 1 \<and> py_isupper U [c] \<and> py_islower U rest \<and>
          length clean_word > 2)"

definition many_names :: "unicode \<Rightarrow> ustr \<Rightarrow> bool" where
  "many_names U content =
     (let words = py_split U content in
      if length words \<ge> 2 \<and> length content < 300
      then (let name_words = filter (is_name_word U) words in
            length name_words \<ge> 3 \<and> length content < 200)
      else False)"

definition problematic_patterns :: "ustr list" where
  "problematic_patterns =
     [u ''corresponding author'', u ''equal contribution'', u ''present address'',
      u ''current address'', u ''orcid:'', u ''email:'', u ''e-mail:'', u ''tel:'',
      u ''fax:'', u ''phone:'',
      u ''dipartimento'', u ''universita'', u ''universit'' @ [224], u ''university'',
      u ''institute'', u ''institut'', u ''department'', u ''college'', u ''school of'',
      u ''faculty of'', u ''laboratory'', u ''lab '', u ''center for'', u ''centre for'',
      u ''hospital'', u ''medical center'', u ''research center'',
      u ''via '', u ''avenue'', u ''street'', u ''road'', u ''blvd'', u ''boulevard'',
      u ''italy'', u ''genova'', u ''salerno'', u ''bamako'', u ''mali'',
      u ''received'', u ''accepted'', u ''published'', u ''correspondence:'',
      u ''funding:'', u ''doi:'', u ''copyright'', u ''journal of'', u ''volume'',
      u ''issue'', u ''page'',
      u ''table '', u ''figure '', u ''fig '', u ''chart '', u ''scheme '', u ''plate '',
      u ''anti-inflammatory activity'', u ''carrageenan-induced'',
      u ''compounds 1'', u ''compounds '', u ''compound '', u ''structures of'',
      u ''chemical'', u ''synthesis'', u ''analysis'', u ''characterization'',
      [8224], [8225], [167], [182], u ''*'', u ''**'', u ''***'',
      u ''.it'', u ''.edu'', u ''.org'', u ''.ac.'', u ''.univ'']"

text \<open>The characters counted as symbols: the footnote signs and \<open>*,()[]{}0123456789\<close>.\<close>

definition symbol_chars :: ustr where
  "symbol_chars = [8224, 8225, 167, 182] @ u ''*,()[]{}0123456789''"

definition symbol_count :: "ustr \<Rightarrow> nat" where
  "symbol_count content = length (filter (among symbol_chars) content)"

definition footnote_rx :: rx where
  "footnote_rx =
     (let m = Cls (among [8224, 8225, 167, 182, 42]) in rx_seq [m, Opt (rx_seq [m, Opt m])])"

definition email_rx :: "unicode \<Rightarrow> rx" where
  "email_rx U =
     (let tld = Cls (\<lambda>c. rng 65 90 c \<or> c = 124 \<or> rng 97 122 c) in
      rx_seq [WordB (is_word U),
        Plus (Cls (\<lambda>c. rng 65 90 c \<or> rng 97 122 c \<or> rng 48 57 c \<or> among (u ''._%+-'') c)),
        rx_lit (u ''@''),
        Plus (Cls (\<lambda>c. rng 65 90 c \<or> rng 97 122 c \<or> rng 48 57 c \<or> among (u ''.-'') c)),
        rx_lit (u ''.''), tld, Plus tld, WordB (is_word U)])"

definition postal_rx :: "unicode \<Rightarrow> rx" where
  "postal_rx U =
     rx_seq [WordB (is_word U), rx_digit U, rx_digit U, rx_digit U, rx_digit U,
       Opt (rx_digit U), Plus (rx_space U), rx_upper, Plus rx_lower]"

text \<open>
  The comparison \<open>symbol_count > len(content) * 0.3\<close> is between an integer and a
  product in double precision; for every length below \<open>2^53\<close> it holds exactly when
  \<open>10 * symbol_count > 3 * len(content)\<close>.
\<close>

definition is_author_line :: "unicode \<Rightarrow> ustr \<Rightarrow> bool" where
  "is_author_line U content =
     (let content_lower = str_lower U content;
          content_stripped = py_strip U content in
      if length content_stripped < 3 then False
      else if list_ex (\<lambda>pattern. re_search pattern content) (author_patterns U) then True
      else if many_names U content then True
      else if list_ex (\<lambda>pattern. py_in pattern content_lower) problematic_patterns then True
      else if 3 * length content < 10 * symbol_count content then True
      else if re_search footnote_rx content then True
      else if re_search (email_rx U) content then True
      else if re_search (postal_rx U) content then True
      else False)"

subsection \<open>\<open>_is_unwanted_content\<close>\<close>

definition numbered :: "unicode \<Rightarrow> string \<Rightarrow> rx" where
  "numbered U w = rx_seq [Bol, rx_lit (u w), Plus (rx_space U), Plus (rx_digit U)]"

definition table_fig_patterns :: "unicode \<Rightarrow> rx list" where
  "table_fig_patterns U =
     [numbered U ''table'', numbered U ''figure'', numbered U ''fig'',
      numbered U ''chart'', numbered U ''scheme'', numbered U ''plate'',
      rx_seq [Bol, Plus (rx_digit U), Star (rx_space U), rx_lower, Plus (rx_space U),
        rx_lit (u ''values'')],
      rx_seq [Bol, Plus (rx_digit U), Star (rx_space U), rx_lower, Plus (rx_space U),
        rx_lit (u ''assignments'')],
      rx_seq [rx_lit (u ''anti-inflammatory activity''), Star rx_dot, rx_lit (u ''on''),
        Star rx_dot, rx_lit (u ''edema'')],
      rx_seq [rx_lit (u ''carrageenan-induced''), Star rx_dot, rx_lit (u ''edema'')],
      rx_seq [rx_lit (u ''mean''), Star rx_dot, rx_lit (u ''sem''), Star rx_dot,
        rx_lit (u ''n''), Star (rx_space U), Cls (among (u ''=(''))],
      rx_seq [rx_lit (u ''p''), Star (rx_space U), rx_lit (u ''<''), Star (rx_space U),
        rx_lit (u ''0.'')],
      rx_seq [rx_lit (u ''student''), Star rx_dot, rx_lit (u ''test'')],
      rx_seq [WordB (is_word U), rx_lit (u ''po''), Star (rx_space U), rx_lit (u '','')],
      rx_seq [rx_lit (u ''extraction yield''), Opt (rx_lit (u ''s''))],
      rx_lit (u ''fractionation yield'')]"

text \<open>The dashes of the range patterns: hyphen, en dash (8211) and em dash (8212).\<close>

definition rx_dash :: rx where
  "rx_dash = Cls (among [45, 8211, 8212])"

definition compound_range_rx :: "unicode \<Rightarrow> rx" where
  "compound_range_rx U =
     rx_seq [rx_lit (u ''compound''), Opt (rx_lit (u ''s'')), Plus (rx_space U),
       Plus (rx_digit U), Star (rx_space U), rx_dash, Star (rx_space U), Plus (rx_digit U)]"

definition bare_range_rx :: "unicode \<Rightarrow> rx" where
  "bare_range_rx U =
     rx_seq [Bol, Plus (rx_digit U), Star (rx_space U), rx_dash, Star (rx_space U),
       Plus (rx_digit U), Star (rx_space U), Eol]"

definition journal_patterns :: "ustr list" where
  "journal_patterns =
     [u ''received'', u ''accepted'', u ''published online'', u ''publication date'',
      u ''doi:'', u ''issn'', u ''copyright'', u ''journal of'', u ''vol.'', u ''volume'',
      u ''issue'', u ''pages'', u ''pp.'', u ''manuscript'']"

text \<open>
  The body of \<open>_is_unwanted_content\<close> after its first line: everything it decides, it
  decides on \<open>content_lower\<close>.
\<close>

definition unwanted_lower :: "unicode \<Rightarrow> ustr \<Rightarrow> bool" where
  "unwanted_lower U content_lower =
     (if length content_lower < 3 then True
      else if list_ex (\<lambda>pattern. re_search pattern content_lower) (table_fig_patterns U)
        then True
      else if re_search (compound_range_rx U) content_lower then True
      else if re_search (bare_range_rx U) content_lower then True
      else if list_ex (\<lambda>pattern. py_in pattern content_lower) journal_patterns then True
      else if length content_lower < 10 \<and> list_ex (ch_isdigit U) content_lower then True
      else False)"

definition is_unwanted_content :: "unicode \<Rightarrow> ustr \<Rightarrow> bool" where
  "is_unwanted_content U content = unwanted_lower U (py_strip U (str_lower U content))"


section \<open>Documents\<close>

text \<open>
  The document is the dictionary that the converter exports: JSON values, as Python
  holds them. Nothing in the source checks the type of what it reads from a block, so
  the model keeps the dynamic types and every operation that Python would refuse is an
  error value. JSON numbers are integers here: the numeric fields that the source
  reads (\<open>level\<close>, \<open>page_no\<close>, \<open>page_number\<close>, \<open>font_size\<close>) are only compared with integer
  literals.
\<close>

datatype pyval =
    PNone
  | PBool bool
  | PInt int
  | PStr ustr
  | PList "pyval list"
  | PDict "(ustr \<times> pyval) list"

datatype pyerr = AttributeError | TypeError | KeyError | IndexError

definition ebind :: "pyerr + 'a \<Rightarrow> ('a \<Rightarrow> pyerr + 'b) \<Rightarrow> pyerr + 'b" where
  "ebind m f = (case m of Inl e \<Rightarrow> Inl e | Inr x \<Rightarrow> f x)"

text \<open>\<open>x.get(...)\<close> exists on dictionaries only.\<close>

definition as_dict :: "pyval \<Rightarrow> pyerr + (ustr \<times> pyval) list" where
  "as_dict v = (case v of PDict d \<Rightarrow> Inr d | _ \<Rightarrow> Inl AttributeError)"

definition dget :: "(ustr \<times> pyval) list \<Rightarrow> ustr \<Rightarrow> pyval \<Rightarrow> pyval" where
  "dget d k dflt = (case map_of d k of None \<Rightarrow> dflt | Some v \<Rightarrow> v)"

text \<open>
  \<open>x.get("text", "")\<close> followed by a string method (\<open>strip\<close>, \<open>upper\<close>): the method
  exists on strings only.
\<close>

definition get_str :: "(ustr \<times> pyval) list \<Rightarrow> ustr \<Rightarrow> pyerr + ustr" where
  "get_str d k = (case dget d k (PStr []) of PStr s \<Rightarrow> Inr s | _ \<Rightarrow> Inl AttributeError)"

definition truthy :: "pyval \<Rightarrow> bool" where
  "truthy v = (case v of PNone \<Rightarrow> False | PBool b \<Rightarrow> b | PInt n \<Rightarrow> n \<noteq> 0
     | PStr s \<Rightarrow> s \<noteq> [] | PList xs \<Rightarrow> xs \<noteq> [] | PDict d \<Rightarrow> d \<noteq> [])"

text \<open>Comparison with an integer literal: \<open>bool\<close> is a subtype of \<open>int\<close> in Python.\<close>

definition py_eq_int :: "pyval \<Rightarrow> int \<Rightarrow> bool" where
  "py_eq_int v k = (case v of PInt n \<Rightarrow> n = k | PBool b \<Rightarrow> (if b then 1 else 0) = k | _ \<Rightarrow> False)"

definition py_le_int :: "pyval \<Rightarrow> int \<Rightarrow> pyerr + bool" where
  "py_le_int v k = (case v of PInt n \<Rightarrow> Inr (n \<le> k) | PBool b \<Rightarrow> Inr ((if b then 1 else 0) \<le> k)
     | _ \<Rightarrow> Inl TypeError)"

definition py_gt_int :: "pyval \<Rightarrow> int \<Rightarrow> pyerr + bool" where
  "py_gt_int v k = (case v of PInt n \<Rightarrow> Inr (n > k) | PBool b \<Rightarrow> Inr ((if b then 1 else 0) > k)
     | _ \<Rightarrow> Inl TypeError)"

text \<open>
  \<open>for x in v\<close>: a list gives its elements, a string its characters, a dictionary its
  keys; nothing else can be iterated.
\<close>

definition py_iter :: "pyval \<Rightarrow> pyerr + pyval list" where
  "py_iter v = (case v of PList xs \<Rightarrow> Inr xs | PStr s \<Rightarrow> Inr (map (\<lambda>c. PStr [c]) s)
     | PDict d \<Rightarrow> Inr (map (\<lambda>kv. PStr (fst kv)) d) | _ \<Rightarrow> Inl TypeError)"

text \<open>\<open>doc_json.get("texts", [])\<close>, iterated.\<close>

definition get_texts :: "pyval \<Rightarrow> pyerr + pyval list" where
  "get_texts doc_json = ebind (as_dict doc_json) (\<lambda>d. py_iter (dget d (u ''texts'') (PList [])))"

text \<open>
  \<open>text.get("prov", [{}])[0].get("page_no", 1) if text.get("prov") else 1\<close>: a truthy
  \<open>prov\<close> is indexed with \<open>0\<close> (a dictionary from JSON has string keys only, so it has no
  key \<open>0\<close>; the first character of a string has no \<open>get\<close>).
\<close>

definition page_no_of :: "(ustr \<times> pyval) list \<Rightarrow> pyerr + pyval" where
  "page_no_of d =
     (let prov = dget d (u ''prov'') PNone in
      if truthy prov then
        (case prov of
           PList xs \<Rightarrow> (case xs of [] \<Rightarrow> Inr (PInt 1)
             | x # _ \<Rightarrow> ebind (as_dict x) (\<lambda>p. Inr (dget p (u ''page_no'') (PInt 1))))
         | PStr s \<Rightarrow> Inl AttributeError
         | PDict kv \<Rightarrow> Inl KeyError
         | _ \<Rightarrow> Inl TypeError)
      else Inr (PInt 1))"

definition label_of :: "(ustr \<times> pyval) list \<Rightarrow> pyval" where
  "label_of d = dget d (u ''label'') PNone"

definition is_section_header :: "(ustr \<times> pyval) list \<Rightarrow> bool" where
  "is_section_header d = (label_of d = PStr (u ''section_header''))"

definition is_page_furniture :: "(ustr \<times> pyval) list \<Rightarrow> bool" where
  "is_page_furniture d =
     (label_of d = PStr (u ''page_header'') \<or> label_of d = PStr (u ''page_footer''))"

text \<open>A \<open>for\<close> loop with \<open>break\<close>, over a state, whose body may raise.\<close>

datatype 's ctl = Continue 's | Break 's

fun py_loop :: "('s \<Rightarrow> 'a \<Rightarrow> pyerr + 's ctl) \<Rightarrow> 's \<Rightarrow> 'a list \<Rightarrow> pyerr + 's ctl" where
  "py_loop body s [] = Inr (Continue s)"
| "py_loop body s (x # xs) =
     (case body s x of
        Inl e \<Rightarrow> Inl e
      | Inr (Break s') \<Rightarrow> Inr (Break s')
      | Inr (Continue s') \<Rightarrow> py_loop body s' xs)"

definition state_of :: "'s ctl \<Rightarrow> 's" where
  "state_of c = (case c of Continue s \<Rightarrow> s | Break s \<Rightarrow> s)"

text \<open>The state when the loop is left, by \<open>break\<close> or at the end of the list.\<close>

definition py_for :: "('s \<Rightarrow> 'a \<Rightarrow> pyerr + 's ctl) \<Rightarrow> 's \<Rightarrow> 'a list \<Rightarrow> pyerr + 's" where
  "py_for body s xs = ebind (py_loop body s xs) (\<lambda>c. Inr (state_of c))"

definition any_in :: "ustr list \<Rightarrow> ustr \<Rightarrow> bool" where
  "any_in kws s = list_ex (\<lambda>kw. py_in kw s) kws"

section \<open>Section extractor: \<open>extract_paper_content\<close>\<close>

record paper =
  title :: ustr
  abstract :: ustr
  main_text :: ustr

definition section_names :: "ustr list" where
  "section_names = [u ''ABSTRACT'', u ''INTRODUCTION'', u ''EXPERIMENTAL'', u ''METHODS'',
     u ''RESULTS'']"

text \<open>The title loop: the state is \<open>title\<close>.\<close>

definition title_step :: "unicode \<Rightarrow> ustr \<Rightarrow> pyval \<Rightarrow> pyerr + ustr ctl" where
  "title_step U ttl t =
     ebind (as_dict t) (\<lambda>d.
       if is_section_header d \<and> py_eq_int (dget d (u ''level'') PNone) 1 then
         ebind (get_str d (u ''text'')) (\<lambda>s.
           if \<not> py_in (u ''RESULTS'') (str_upper U s) \<and> length s > 5
           then Inr (Break s) else Inr (Continue ttl))
       else if is_section_header d then
         ebind (get_str d (u ''text'')) (\<lambda>s.
           let content = py_strip U s in
           if length content > 20 \<and> \<not> any_in section_names (str_upper U content)
           then Inr (Break content) else Inr (Continue ttl))
       else Inr (Continue ttl))"

text \<open>The abstract loop: the state is \<open>abstract_section\<close> and \<open>collecting_abstract\<close>.\<close>

record abs_state =
  abstract_section :: "ustr list"
  collecting_abstract :: bool

definition abstract_stops :: "ustr list" where
  "abstract_stops = [u ''INTRODUCTION'', u ''EXPERIMENTAL'', u ''METHODS'', u ''RESULTS'']"

definition metadata_markers :: "ustr list" where
  "metadata_markers = [u ''correspondence:'', u ''received:'', u ''funding:'', u ''doi:'',
     u ''copyright'']"

definition abstract_step :: "unicode \<Rightarrow> abs_state \<Rightarrow> pyval \<Rightarrow> pyerr + abs_state ctl" where
  "abstract_step U st t =
     ebind (as_dict t) (\<lambda>d.
     ebind (get_str d (u ''text'')) (\<lambda>s.
       let content = py_strip U s in
       if content = [] then Inr (Continue st)
       else if is_section_header d \<and> str_upper U content = u ''ABSTRACT''
         then Inr (Continue (st\<lparr>collecting_abstract := True\<rparr>))
       else if py_in (u ''ABSTRACT:'') (str_upper U content)
         then Inr (Continue (st\<lparr>
           abstract_section := abstract_section st @
             [py_strip U (py_replace (u ''Abstract:'') [] (py_replace (u ''ABSTRACT:'') [] content))],
           collecting_abstract := True\<rparr>))
       else if collecting_abstract st then
         (if is_section_header d \<and> any_in abstract_stops (str_upper U content)
          then Inr (Break st)
          else if \<not> is_page_furniture d \<and> \<not> any_in metadata_markers (str_lower U content)
          then Inr (Continue (st\<lparr>abstract_section := abstract_section st @ [content]\<rparr>))
          else Inr (Continue st))
       else Inr (Continue st)))"

text \<open>The main-text loop: the state is \<open>main_text\<close> (a list here) and \<open>found_intro\<close>.\<close>

record main_state =
  main_list :: "ustr list"
  found_intro :: bool

definition main_stops :: "ustr list" where
  "main_stops = [u ''RESULTS'', u ''REFERENCES'', u ''BIBLIOGRAPHY'', u ''ACKNOWLEDGMENT'']"

definition main_step :: "unicode \<Rightarrow> main_state \<Rightarrow> pyval \<Rightarrow> pyerr + main_state ctl" where
  "main_step U st t =
     ebind (as_dict t) (\<lambda>d.
     ebind (get_str d (u ''text'')) (\<lambda>s.
     ebind (page_no_of d) (\<lambda>page_no.
       let content = py_strip U s; up = str_upper U content in
       if content = [] \<or> is_page_furniture d then Inr (Continue st)
       else if is_section_header d \<and>
           (py_in (u ''INTRODUCTION'') up \<or> (py_in (u ''|'') content \<and> py_in (u ''INTRODUCTION'') up))
         then Inr (Continue (st\<lparr>main_list := main_list st @ [content], found_intro := True\<rparr>))
       else if is_section_header d \<and>
           any_in [u ''METHODOLOGY'', u ''MATERIALS'', u ''EXPERIMENTAL''] up
         then Inr (Continue (st\<lparr>main_list := main_list st @ [content], found_intro := True\<rparr>))
       else if found_intro st \<and> is_section_header d \<and> any_in main_stops up
         then Inr (Break st)
       else if found_intro st then
         ebind (py_le_int page_no 6) (\<lambda>early.
           if early \<and> \<not> any_in metadata_markers (str_lower U content)
           then Inr (Continue (st\<lparr>main_list := main_list st @ [content]\<rparr>))
           else Inr (Continue st))
       else Inr (Continue st))))"

text \<open>The lenient pass over the first three pages, run when nothing else was found.\<close>

definition lenient_step :: "unicode \<Rightarrow> ustr list \<Rightarrow> pyval \<Rightarrow> pyerr + ustr list ctl" where
  "lenient_step U acc t =
     ebind (as_dict t) (\<lambda>d.
     ebind (get_str d (u ''text'')) (\<lambda>s.
     ebind (page_no_of d) (\<lambda>page_no.
       let content = py_strip U s in
       if content = [] \<or> is_page_furniture d \<or> length content < 5 then Inr (Continue acc)
       else ebind (py_gt_int page_no 3) (\<lambda>late.
         if late then Inr (Continue acc)
         else if any_in metadata_markers (str_lower U content) then Inr (Continue acc)
         else Inr (Continue (acc @ [content]))))))"

definition find_title :: "unicode \<Rightarrow> pyval list \<Rightarrow> pyerr + ustr" where
  "find_title U texts = py_for (title_step U) [] texts"

definition abs_init :: abs_state where
  "abs_init = \<lparr>abstract_section = [], collecting_abstract = False\<rparr>"

definition collect_abstract :: "unicode \<Rightarrow> pyval list \<Rightarrow> pyerr + abs_state" where
  "collect_abstract U texts = py_for (abstract_step U) abs_init texts"

definition extract_paper_content :: "unicode \<Rightarrow> pyval \<Rightarrow> pyerr + paper" where
  "extract_paper_content U doc_json =
     ebind (get_texts doc_json) (\<lambda>texts.
     ebind (find_title U texts) (\<lambda>ttl.
     ebind (collect_abstract U texts) (\<lambda>ast.
     let abstr = py_join (u '' '') (abstract_section ast) in
     ebind (py_for (main_step U) \<lparr>main_list = [], found_intro = False\<rparr> texts) (\<lambda>mst.
     ebind (if abstr = [] \<and> main_list mst = []
            then py_for (lenient_step U) (main_list mst) texts
            else Inr (main_list mst)) (\<lambda>main.
     Inr \<lparr>title = ttl, abstract = abstr, main_text = py_join (u '' '') main\<rparr>)))))"


section \<open>\<open>extract_from_docling_document\<close>\<close>

definition paper_dict :: "paper \<Rightarrow> pyval" where
  "paper_dict p = PDict [(u ''title'', PStr (title p)), (u ''abstract'', PStr (abstract p)),
     (u ''main_text'', PStr (main_text p))]"

definition error_dict :: pyval where
  "error_dict = PDict [(u ''error'', PStr (u ''Not a valid Docling document format''))]"

text \<open>
  \<open>"schema_name" in data and data["schema_name"] == "DoclingDocument"\<close>: on a string
  or a list the membership test is defined and the subscript is not.
\<close>

definition is_docling :: "pyval \<Rightarrow> pyerr + bool" where
  "is_docling data =
     (case data of
        PDict d \<Rightarrow> Inr (case map_of d (u ''schema_name'') of
                        None \<Rightarrow> False | Some v \<Rightarrow> v = PStr (u ''DoclingDocument''))
      | PStr s \<Rightarrow> if py_in (u ''schema_name'') s then Inl TypeError else Inr False
      | PList xs \<Rightarrow> if PStr (u ''schema_name'') \<in> set xs then Inl TypeError else Inr False
      | _ \<Rightarrow> Inl TypeError)"

definition backfill_names :: "ustr list" where
  "backfill_names = [u ''ABSTRACT'', u ''INTRODUCTION'', u ''RESULTS'', u ''METHODS'',
     u ''EXPERIMENTAL'']"

definition title_backfill_step :: "unicode \<Rightarrow> ustr \<Rightarrow> pyval \<Rightarrow> pyerr + ustr ctl" where
  "title_backfill_step U ttl t =
     ebind (as_dict t) (\<lambda>d.
     ebind (get_str d (u ''text'')) (\<lambda>s.
       let content = py_strip U s in
       if is_section_header d \<and> length content > 30 \<and>
          \<not> any_in backfill_names (str_upper U content)
       then Inr (Break content)
       else if label_of d = PStr (u ''paragraph'') \<and>
          py_eq_int (dget d (u ''page_number'') PNone) 1
       then ebind (py_gt_int (dget d (u ''font_size'') (PInt 0)) 12) (\<lambda>large.
              if large then Inr (Break content) else Inr (Continue ttl))
       else Inr (Continue ttl)))"

definition structured_markers :: "ustr list" where
  "structured_markers = [u ''introduction:'', u ''objective:'', u ''methodology:'',
     u ''results:'', u ''conclusion:'']"

definition abstract_backfill_step ::
  "unicode \<Rightarrow> ustr list \<Rightarrow> pyval \<Rightarrow> pyerr + ustr list ctl" where
  "abstract_backfill_step U abstract_texts t =
     ebind (as_dict t) (\<lambda>d.
     ebind (get_str d (u ''text'')) (\<lambda>s.
       let content = py_strip U s;
           collected = (if any_in structured_markers (str_lower U content)
                        then abstract_texts @ [content] else abstract_texts) in
       if is_section_header d \<and> py_in (u ''introduction'') (str_lower U content)
       then Inr (Break collected) else Inr (Continue collected)))"

definition extract_from_docling_document :: "unicode \<Rightarrow> pyval \<Rightarrow> pyerr + pyval" where
  "extract_from_docling_document U data =
     ebind (is_docling data) (\<lambda>docling.
       if docling then
         ebind (extract_paper_content U data) (\<lambda>result.
           if title result = [] \<or> abstract result = [] \<or> main_text result = [] then
             ebind (get_texts data) (\<lambda>texts.
             ebind (if title result = []
                    then py_for (title_backfill_step U) (title result) texts
                    else Inr (title result)) (\<lambda>ttl.
             ebind (if abstract result = []
                    then ebind (py_for (abstract_backfill_step U) [] texts) (\<lambda>abstract_texts.
                           Inr (if abstract_texts \<noteq> []
                                then py_join (u '' '') abstract_texts else abstract result))
                    else Inr (abstract result)) (\<lambda>abstr.
             Inr (paper_dict (result\<lparr>title := ttl, abstract := abstr\<rparr>)))))
           else Inr (paper_dict result))
       else Inr error_dict)"

section \<open>Text normalizer\<close>

definition rx_ws_run :: "unicode \<Rightarrow> rx" where
  "rx_ws_run U = Plus (rx_space U)"

definition one_space :: "ustr \<Rightarrow> ustr" where
  "one_space m = [32]"

text \<open>\<open>re.sub(r"\s+", " ", s)\<close> and, at the end, \<open>.strip()\<close>.\<close>

definition collapse_ws :: "unicode \<Rightarrow> ustr \<Rightarrow> ustr" where
  "collapse_ws U s = re_sub (rx_ws_run U) one_space s"

definition final_cleanup :: "unicode \<Rightarrow> ustr \<Rightarrow> ustr" where
  "final_cleanup U s = py_strip U (collapse_ws U s)"

text \<open>\<open>re.sub(r"\s+([.,;:?!])", r"\1", s)\<close>: the group is the last character of the match.\<close>

definition fix_punctuation :: "unicode \<Rightarrow> ustr \<Rightarrow> ustr" where
  "fix_punctuation U s =
     re_sub (rx_seq [Plus (rx_space U), Cls (among (u ''.,;:?!''))])
       (\<lambda>m. drop (length m - 1) m) s"

definition fix_pipes :: "unicode \<Rightarrow> ustr \<Rightarrow> ustr" where
  "fix_pipes U s =
     re_sub (rx_seq [Star (rx_space U), rx_lit (u ''|''), Star (rx_space U)])
       (\<lambda>m. u '' | '') s"

definition drop_tildes :: "unicode \<Rightarrow> ustr \<Rightarrow> ustr" where
  "drop_tildes U s =
     re_sub (rx_seq [Star (rx_space U), rx_lit (u ''~''), Star (rx_space U)]) one_space s"

text \<open>
  \<open>re.sub(r"([a-z])([A-Z])", r"\1 \2", s)\<close>: the match is two characters, one for each
  group.
\<close>

definition split_camel :: "ustr \<Rightarrow> ustr" where
  "split_camel s = re_sub (rx_seq [rx_lower, rx_upper]) (\<lambda>m. take 1 m @ [32] @ drop 1 m) s"

text \<open>The ligatures \<open>OE\<close> (338, 339) and the letters Y and y with diaeresis (376, 255).\<close>

definition drop_ligatures :: "ustr \<Rightarrow> ustr" where
  "drop_ligatures s = re_sub (Cls (among [338, 339, 376, 255])) (\<lambda>m. []) s"

text \<open>
  \<open>re.sub(r"(\w)-\s+(\w)", r"\1\2", s)\<close>: the groups are the first and the last
  character of the match.
\<close>

definition rejoin_hyphens :: "unicode \<Rightarrow> ustr \<Rightarrow> ustr" where
  "rejoin_hyphens U s =
     re_sub (rx_seq [rx_word U, rx_lit (u ''-''), Plus (rx_space U), rx_word U])
       (\<lambda>m. take 1 m @ drop (length m - 1) m) s"

text \<open>The clean-up of \<open>combine_to_paragraph\<close>, in the order of the source.\<close>

definition normalize_text :: "unicode \<Rightarrow> ustr \<Rightarrow> ustr" where
  "normalize_text U s =
     final_cleanup U (rejoin_hyphens U (drop_ligatures (split_camel (drop_tildes U
       (fix_pipes U (fix_punctuation U (collapse_ws U (py_replace [10] [32] s))))))))"

text \<open>
  The clean-up at the end of \<open>extract_enhanced_paper_content\<close> and of
  \<open>extract_full_page_text\<close>: the same steps without the split at a change of case.
\<close>

definition clean_text :: "unicode \<Rightarrow> ustr \<Rightarrow> ustr" where
  "clean_text U s =
     final_cleanup U (rejoin_hyphens U (drop_ligatures (drop_tildes U
       (fix_pipes U (fix_punctuation U (collapse_ws U (py_replace [10] [32] s)))))))"

definition combine_to_paragraph :: "unicode \<Rightarrow> pyval \<Rightarrow> pyerr + ustr" where
  "combine_to_paragraph U result_dict =
     (case result_dict of
        PDict d \<Rightarrow>
          ebind (get_str d (u ''title'')) (\<lambda>t.
          ebind (get_str d (u ''abstract'')) (\<lambda>a.
          ebind (get_str d (u ''main_text'')) (\<lambda>m.
            let combined_text = filter (\<lambda>x. x \<noteq> []) [py_strip U t, py_strip U a, py_strip U m]
            in Inr (normalize_text U (py_join (u '' '') combined_text)))))
      | _ \<Rightarrow> Inr (u ''Error: Input must be a dictionary.''))"


section \<open>Enhanced extractor: \<open>extract_enhanced_paper_content\<close>\<close>

definition enh_title_step :: "unicode \<Rightarrow> ustr \<Rightarrow> pyval \<Rightarrow> pyerr + ustr ctl" where
  "enh_title_step U ttl t =
     ebind (as_dict t) (\<lambda>d.
       if is_section_header d then
         ebind (get_str d (u ''text'')) (\<lambda>s.
           let content = py_strip U s in
           if length content > 20 \<and> \<not> any_in section_names (str_upper U content)
           then Inr (Break content) else Inr (Continue ttl))
       else Inr (Continue ttl))"

record enh_state =
  abstract_content :: "ustr list"
  introduction_content :: "ustr list"
  main_content :: "ustr list"
  capturing_abstract :: bool
  capturing_introduction :: bool
  capturing_main :: bool

definition structured_heads :: "ustr list" where
  "structured_heads = [u ''Introduction:'', u ''Objective:'', u ''Methodology:'',
     u ''Results:'', u ''Conclusion:'', u ''Background:'', u ''Methods:'', u ''Purpose:'',
     u ''Aim:'', u ''Summary:'']"

definition main_sections :: "ustr list" where
  "main_sections = [u ''METHODS'', u ''METHODOLOGY'', u ''MATERIALS'', u ''EXPERIMENTAL'',
     u ''DISCUSSION'', u ''ANALYSIS'']"

definition contact_markers :: "ustr list" where
  "contact_markers = [u ''correspondence:'', u ''received:'', u ''funding:'', u ''doi:'',
     u ''copyright'', u ''@'', u ''university'', u ''institute'', u ''department'',
     u ''college'', u ''school of'', u ''faculty of'', u ''laboratory'', u ''lab '',
     u ''center for'', u ''centre for'', u ''hospital'', u ''medical center'',
     u ''research center'', u ''orcid'', u ''author'', u ''affiliation'']"

text \<open>The filter that every capture applies before it accepts a block.\<close>

definition passes_filters :: "unicode \<Rightarrow> ustr \<Rightarrow> bool" where
  "passes_filters U content =
     (\<not> any_in contact_markers (str_lower U content) \<and> \<not> is_author_line U content \<and>
      \<not> is_unwanted_content U content)"

text \<open>
  \<open>if capturing and page_no <= limit: if <filters>: buf.append(content)\<close>: the page
  number is compared only while the flag is set.
\<close>

definition capture_if ::
  "unicode \<Rightarrow> bool \<Rightarrow> pyval \<Rightarrow> int \<Rightarrow> ustr \<Rightarrow> ustr list \<Rightarrow> pyerr + ustr list" where
  "capture_if U capturing page_no limit content buf =
     (if capturing
      then ebind (py_le_int page_no limit) (\<lambda>early.
             Inr (if early \<and> passes_filters U content then buf @ [content] else buf))
      else Inr buf)"

definition enh_step :: "unicode \<Rightarrow> enh_state \<Rightarrow> pyval \<Rightarrow> pyerr + enh_state ctl" where
  "enh_step U st t =
     ebind (as_dict t) (\<lambda>d.
     ebind (get_str d (u ''text'')) (\<lambda>s.
     ebind (page_no_of d) (\<lambda>page_no.
       let content = py_strip U s; up = str_upper U content in
       if content = [] \<or> is_page_furniture d \<or> length content < 3 then Inr (Continue st)
       else if is_section_header d \<and> up = u ''ABSTRACT''
         then Inr (Continue (st\<lparr>capturing_abstract := True\<rparr>))
       else if capturing_abstract st \<and> any_in structured_heads content
         then Inr (Continue (st\<lparr>abstract_content := abstract_content st @ [content]\<rparr>))
       else if is_section_header d \<and>
           (py_in (u ''INTRODUCTION'') up \<or> (py_in (u ''|'') content \<and> py_in (u ''INTRODUCTION'') up))
         then Inr (Continue (st\<lparr>capturing_abstract := False, capturing_introduction := True\<rparr>))
       else if is_section_header d \<and> any_in main_sections up
         then Inr (Continue (st\<lparr>capturing_introduction := False, capturing_main := True\<rparr>))
       else
         (let st1 = (if capturing_main st \<and> is_section_header d \<and> any_in main_stops up
                     then st\<lparr>capturing_main := False\<rparr> else st) in
          ebind (capture_if U (capturing_abstract st1) page_no 3 content
                   (abstract_content st1)) (\<lambda>a.
          ebind (capture_if U (capturing_introduction st1) page_no 5 content
                   (introduction_content st1)) (\<lambda>i.
          ebind (capture_if U (capturing_main st1) page_no 6 content
                   (main_content st1)) (\<lambda>m.
          Inr (Continue (st1\<lparr>abstract_content := a, introduction_content := i,
                 main_content := m\<rparr>)))))))))"

definition enh_init :: enh_state where
  "enh_init = \<lparr>abstract_content = [], introduction_content = [], main_content = [],
     capturing_abstract = False, capturing_introduction = False, capturing_main = False\<rparr>"

text \<open>
  The assembly: the title is appended before the scan and once more after it, then the
  three buffers follow, the main one cut to eight fragments.
\<close>

definition assemble :: "ustr \<Rightarrow> enh_state \<Rightarrow> ustr list" where
  "assemble ttl st =
     (if ttl \<noteq> [] then [ttl] else []) @ (if ttl \<noteq> [] then [ttl] else []) @
     abstract_content st @ introduction_content st @ take 8 (main_content st)"

text \<open>
  The deduplication pass. Python's sets of words are lists without repetition here.
  The quotient \<open>len(title_words & content_words) / max(len(title_words), 1)\<close> is a
  double; for fewer than \<open>10^15\<close> words it is below \<open>0.7\<close> exactly when ten times the
  numerator is below seven times the denominator.
\<close>

definition word_set :: "unicode \<Rightarrow> ustr \<Rightarrow> ustr list" where
  "word_set U s = remdups (py_split U (str_lower U s))"

definition keeps_piece :: "unicode \<Rightarrow> ustr \<Rightarrow> ustr \<Rightarrow> bool" where
  "keeps_piece U ttl content_piece =
     (let title_words = word_set U ttl;
          content_words = word_set U content_piece in
      10 * length (filter (\<lambda>w. w \<in> set content_words) title_words)
        < 7 * max (length title_words) 1)"

definition dedup_title :: "unicode \<Rightarrow> ustr \<Rightarrow> ustr list \<Rightarrow> ustr list" where
  "dedup_title U ttl extracted_content =
     (if ttl \<noteq> [] \<and> length extracted_content > 1
      then ttl # filter (keeps_piece U ttl) (drop 1 extracted_content)
      else extracted_content)"

definition rebuild_markers :: "ustr list" where
  "rebuild_markers = [u ''correspondence:'', u ''received:'', u ''funding:'', u ''doi:'',
     u ''copyright'', u ''journal of'', u ''volume'', u ''issue'', u ''@'', u ''university'',
     u ''institute'', u ''department'', u ''college'', u ''school of'', u ''faculty of'',
     u ''laboratory'', u ''lab '', u ''center for'', u ''centre for'', u ''hospital'',
     u ''medical center'', u ''research center'', u ''orcid'', u ''author'',
     u ''affiliation'']"

definition journal_names :: "ustr list" where
  "journal_names = [u ''phytochemical analysis'', u ''john wiley'', u ''doi.org'',
     u ''elsevier'', u ''springer'']"

text \<open>The rebuild from the first four pages, run when fewer than five fragments remain.\<close>

definition rebuild_step :: "unicode \<Rightarrow> ustr list \<Rightarrow> pyval \<Rightarrow> pyerr + ustr list ctl" where
  "rebuild_step U acc t =
     ebind (as_dict t) (\<lambda>d.
     ebind (get_str d (u ''text'')) (\<lambda>s.
     ebind (page_no_of d) (\<lambda>page_no.
     ebind (py_gt_int page_no 4) (\<lambda>late.
       let content = py_strip U s in
       if late then Inr (Continue acc)
       else if content = [] \<or> is_page_furniture d \<or> length content < 5 then Inr (Continue acc)
       else if any_in rebuild_markers (str_lower U content) \<or> is_author_line U content \<or>
               is_unwanted_content U content then Inr (Continue acc)
       else if py_isdigit U content \<or>
               (length content < 50 \<and> any_in journal_names (str_lower U content))
         then Inr (Continue acc)
       else Inr (Continue (acc @ [content]))))))"

text \<open>The sentences longer than ten characters, each kept the first time it is seen.\<close>

fun unique_sentences :: "unicode \<Rightarrow> ustr list \<Rightarrow> ustr list \<Rightarrow> ustr list" where
  "unique_sentences U seen [] = []"
| "unique_sentences U seen (sentence # rest) =
     (let sentence_clean = str_lower U (py_strip U sentence) in
      if length sentence_clean > 10 \<and> sentence_clean \<notin> set seen
      then sentence # unique_sentences U (sentence_clean # seen) rest
      else unique_sentences U seen rest)"

definition extract_enhanced_paper_content :: "unicode \<Rightarrow> pyval \<Rightarrow> pyerr + ustr" where
  "extract_enhanced_paper_content U doc_json =
     ebind (get_texts doc_json) (\<lambda>texts.
     ebind (py_for (enh_title_step U) [] texts) (\<lambda>ttl.
     ebind (py_for (enh_step U) enh_init texts) (\<lambda>st.
     let extracted_content = dedup_title U ttl (assemble ttl st) in
     ebind (if length extracted_content < 5
            then py_for (rebuild_step U) (if ttl \<noteq> [] then [ttl] else []) texts
            else Inr extracted_content) (\<lambda>pieces.
     let combined = py_join (u '' '') pieces;
         sentences = split_sep (u ''. '') [] combined in
     Inr (clean_text U (py_join (u ''. '') (unique_sentences U [] sentences)))))))"

section \<open>Full-page fallback: \<open>extract_full_page_text\<close>\<close>

text \<open>
  Here the page number is read under
  \<open>if text.get("prov") and len(text.get("prov", [])) > 0\<close>: a truthy number has no
  length, a truthy string, list or dictionary is not empty.
\<close>

definition page_no_checked :: "(ustr \<times> pyval) list \<Rightarrow> pyerr + pyval" where
  "page_no_checked d =
     (let prov = dget d (u ''prov'') PNone in
      if truthy prov then
        (case prov of
           PList xs \<Rightarrow> (case xs of [] \<Rightarrow> Inr (PInt 1)
             | x # _ \<Rightarrow> ebind (as_dict x) (\<lambda>p. Inr (dget p (u ''page_no'') (PInt 1))))
         | PStr s \<Rightarrow> Inl AttributeError
         | PDict kv \<Rightarrow> Inl KeyError
         | _ \<Rightarrow> Inl TypeError)
      else Inr (PInt 1))"

definition early_step :: "unicode \<Rightarrow> ustr list \<Rightarrow> pyval \<Rightarrow> pyerr + ustr list ctl" where
  "early_step U acc t =
     ebind (as_dict t) (\<lambda>d.
     ebind (page_no_checked d) (\<lambda>page_no.
     ebind (py_le_int page_no 3) (\<lambda>early.
       if early then
         ebind (get_str d (u ''text'')) (\<lambda>s.
           let content = py_strip U s in
           if content \<noteq> [] \<and> \<not> is_page_furniture d \<and> passes_filters U content
           then Inr (Continue (acc @ [content])) else Inr (Continue acc))
       else Inr (Continue acc))))"

definition first_blocks_step :: "unicode \<Rightarrow> ustr list \<Rightarrow> pyval \<Rightarrow> pyerr + ustr list ctl" where
  "first_blocks_step U acc t =
     ebind (as_dict t) (\<lambda>d.
     ebind (get_str d (u ''text'')) (\<lambda>s.
       let content = py_strip U s in
       if content \<noteq> [] \<and> \<not> is_page_furniture d \<and> passes_filters U content
       then Inr (Continue (acc @ [content])) else Inr (Continue acc)))"

text \<open>
  The second loop runs over \<open>texts[:30]\<close> when \<open>texts\<close> is truthy. A non-empty string or
  dictionary has already made the first loop raise (its elements are strings), so
  \<open>texts\<close> is a list when this point is reached.
\<close>

definition extract_full_page_text :: "unicode \<Rightarrow> pyval \<Rightarrow> pyerr + ustr" where
  "extract_full_page_text U doc_json =
     ebind (get_texts doc_json) (\<lambda>texts.
     ebind (py_for (early_step U) [] texts) (\<lambda>early_page_texts.
     ebind (if early_page_texts = [] \<and> texts \<noteq> []
            then py_for (first_blocks_step U) early_page_texts (take 30 texts)
            else Inr early_page_texts) (\<lambda>pieces.
     Inr (clean_text U (py_join (u '' '') pieces)))))"

section \<open>The fallback cascade of \<open>extract_pdf_text\<close>\<close>

text \<open>
  The endpoint, after the upload and the conversion: \<open>json_data\<close> is the converted
  document. The decision which fallback runs depends on \<open>combined_text\<close> alone.
\<close>

datatype fallback = FullPageDump | Enhanced | NoFallback

definition word_count :: "unicode \<Rightarrow> ustr \<Rightarrow> nat" where
  "word_count U s = length (py_split U s)"

definition choose_fallback :: "unicode \<Rightarrow> ustr \<Rightarrow> fallback" where
  "choose_fallback U combined_text =
     (if word_count U combined_text \<le> 10 then FullPageDump
      else if word_count U combined_text < 100 \<or>
              \<not> py_in (u ''introduction'') (str_lower U combined_text) \<or>
              py_in (u ''phytochemical analysis'') (str_lower U combined_text)
      then Enhanced
      else NoFallback)"

text \<open>
  The branches of lines 767-785. \<open>all_text\<close> and \<open>enhanced_text\<close> are the outcomes of the
  calls \<open>extract_full_page_text(json_data)\<close> and
  \<open>extract_enhanced_paper_content(json_data)\<close>; the outcome of a call is read on the
  branch that makes the call and nowhere else, so a call is made exactly when its
  outcome can change the result.
\<close>

definition run_fallback ::
  "unicode \<Rightarrow> pyerr + ustr \<Rightarrow> pyerr + ustr \<Rightarrow> ustr \<Rightarrow> pyerr + ustr" where
  "run_fallback U all_text_call enhanced_text_call combined_text =
     (case choose_fallback U combined_text of
        FullPageDump \<Rightarrow>
          ebind all_text_call (\<lambda>all_text.
            Inr (if all_text \<noteq> [] then all_text else combined_text))
      | Enhanced \<Rightarrow>
          ebind enhanced_text_call (\<lambda>enhanced_text.
            Inr (if enhanced_text \<noteq> [] \<and>
                    word_count U enhanced_text > word_count U combined_text
                 then enhanced_text else combined_text))
      | NoFallback \<Rightarrow> Inr combined_text)"

definition apply_fallback :: "unicode \<Rightarrow> pyval \<Rightarrow> ustr \<Rightarrow> pyerr + ustr" where
  "apply_fallback U json_data combined_text =
     run_fallback U (extract_full_page_text U json_data)
       (extract_enhanced_paper_content U json_data) combined_text"

definition extract_pdf_text :: "unicode \<Rightarrow> pyval \<Rightarrow> pyerr + ustr" where
  "extract_pdf_text U json_data =
     ebind (extract_from_docling_document U json_data) (\<lambda>result.
     ebind (combine_to_paragraph U result) (\<lambda>combined_text.
     apply_fallback U json_data combined_text))"


section \<open>The classifiers as they are called\<close>

text \<open>
  The two operations of the classifiers that Python can refuse, written out: the first
  statement calls \<open>content.lower()\<close>, which exists on strings only, and the loop over
  the words of \<open>_is_author_line\<close> reads \<open>clean_word[0]\<close>, which raises \<open>IndexError\<close> on an
  empty string. Everything else is as in \<open>is_author_line\<close> and \<open>is_unwanted_content\<close>.
\<close>

definition py_index0 :: "ustr \<Rightarrow> pyerr + ustr" where
  "py_index0 s = (case s of [] \<Rightarrow> Inl IndexError | c # _ \<Rightarrow> Inr [c])"

definition clean_word_of :: "unicode \<Rightarrow> ustr \<Rightarrow> ustr" where
  "clean_word_of U word = re_sub (Cls (\<lambda>c. \<not> is_word U c)) (\<lambda>m. []) word"

text \<open>
  \<open>len(clean_word) > 1 and clean_word[0].isupper() and clean_word[1:].islower() and
  len(clean_word) > 2\<close>: the index is read only when the first test holds.
\<close>

definition name_word_call :: "unicode \<Rightarrow> ustr \<Rightarrow> pyerr + bool" where
  "name_word_call U word =
     (let clean_word = clean_word_of U word in
      if length clean_word > 1
      then ebind (py_index0 clean_word) (\<lambda>first.
             Inr (py_isupper U first \<and> py_islower U (drop 1 clean_word) \<and>
                  length clean_word > 2))
      else Inr False)"

definition name_word_step :: "unicode \<Rightarrow> ustr list \<Rightarrow> ustr \<Rightarrow> pyerr + ustr list ctl" where
  "name_word_step U name_words word =
     ebind (name_word_call U word) (\<lambda>is_name.
       Inr (Continue (if is_name then name_words @ [clean_word_of U word] else name_words)))"

definition many_names_call :: "unicode \<Rightarrow> ustr \<Rightarrow> pyerr + bool" where
  "many_names_call U content =
     (let words = py_split U content in
      if length words \<ge> 2 \<and> length content < 300
      then ebind (py_for (name_word_step U) [] words) (\<lambda>name_words.
             Inr (length name_words \<ge> 3 \<and> length content < 200))
      else Inr False)"

definition is_author_line_call :: "unicode \<Rightarrow> pyval \<Rightarrow> pyerr + bool" where
  "is_author_line_call U v =
     (case v of
        PStr content \<Rightarrow>
          (let content_lower = str_lower U content;
               content_stripped = py_strip U content in
           if length content_stripped < 3 then Inr False
           else if list_ex (\<lambda>pattern. re_search pattern content) (author_patterns U)
             then Inr True
           else ebind (many_names_call U content) (\<lambda>many.
             if many then Inr True
             else if list_ex (\<lambda>pattern. py_in pattern content_lower) problematic_patterns
               then Inr True
             else if 3 * length content < 10 * symbol_count content then Inr True
             else if re_search footnote_rx content then Inr True
             else if re_search (email_rx U) content then Inr True
             else if re_search (postal_rx U) content then Inr True
             else Inr False))
      | _ \<Rightarrow> Inl AttributeError)"

definition is_unwanted_content_call :: "unicode \<Rightarrow> pyval \<Rightarrow> pyerr + bool" where
  "is_unwanted_content_call U v =
     (case v of
        PStr content \<Rightarrow> Inr (unwanted_lower U (py_strip U (str_lower U content)))
      | _ \<Rightarrow> Inl AttributeError)"

section \<open>Properties in the words of the specification\<close>

text \<open>Blocks for the examples: a header without level, a level-1 header, a paragraph.\<close>

definition header_block :: "string \<Rightarrow> pyval" where
  "header_block s = PDict [(u ''label'', PStr (u ''section_header'')), (u ''text'', PStr (u s))]"

definition title_block :: "string \<Rightarrow> pyval" where
  "title_block s = PDict [(u ''label'', PStr (u ''section_header'')), (u ''level'', PInt 1),
     (u ''text'', PStr (u s))]"

definition paragraph_block :: "string \<Rightarrow> pyval" where
  "paragraph_block s = PDict [(u ''label'', PStr (u ''paragraph'')), (u ''text'', PStr (u s))]"

text \<open>
  The two kinds of title of the specification. A block gives a level-1 title when it is
  a \<open>section_header\<close> with \<open>level == 1\<close> whose text excludes \<open>RESULTS\<close> and is longer than
  5 characters; it gives a long-header title when it is a \<open>section_header\<close> of another
  level whose trimmed text is longer than 20 characters and names no standard section.
\<close>

definition level1_title :: "unicode \<Rightarrow> pyval \<Rightarrow> ustr option" where
  "level1_title U t =
     (case t of
        PDict d \<Rightarrow>
          (if is_section_header d \<and> py_eq_int (dget d (u ''level'') PNone) 1
           then (case dget d (u ''text'') (PStr []) of
                   PStr s \<Rightarrow> if \<not> py_in (u ''RESULTS'') (str_upper U s) \<and> length s > 5
                             then Some s else None
                 | _ \<Rightarrow> None)
           else None)
      | _ \<Rightarrow> None)"

definition long_header_title :: "unicode \<Rightarrow> pyval \<Rightarrow> ustr option" where
  "long_header_title U t =
     (case t of
        PDict d \<Rightarrow>
          (if is_section_header d \<and> \<not> py_eq_int (dget d (u ''level'') PNone) 1
           then (case dget d (u ''text'') (PStr []) of
                   PStr s \<Rightarrow> if length (py_strip U s) > 20 \<and>
                                \<not> any_in section_names (str_upper U (py_strip U s))
                             then Some (py_strip U s) else None
                 | _ \<Rightarrow> None)
           else None)
      | _ \<Rightarrow> None)"

text \<open>
  A block that gives no title: a mapping that is no header, or a header with a string
  for its text that qualifies in neither way.
\<close>

definition no_title :: "unicode \<Rightarrow> pyval \<Rightarrow> bool" where
  "no_title U t =
     (case t of
        PDict d \<Rightarrow>
          (if is_section_header d
           then (case dget d (u ''text'') (PStr []) of PStr s \<Rightarrow> True | _ \<Rightarrow> False) \<and>
                level1_title U t = None \<and> long_header_title U t = None
           else True)
      | _ \<Rightarrow> False)"

text \<open>
  The whitespace collapse in the words of the specification: every maximal run of
  whitespace becomes one space.
\<close>

function squeeze :: "(nat \<Rightarrow> bool) \<Rightarrow> ustr \<Rightarrow> ustr" where
  "squeeze P [] = []"
| "squeeze P (c # cs) = (if P c then 32 # squeeze P (dropWhile P cs) else c # squeeze P cs)"
  by pat_completeness auto
termination
  by (relation "measure (\<lambda>(P, s). length s)") (auto simp: length_dropWhile_le less_Suc_eq_le)

text \<open>
  A text is tidy when each of its whitespace characters is a space that no whitespace
  follows.
\<close>

fun tidy :: "(nat \<Rightarrow> bool) \<Rightarrow> ustr \<Rightarrow> bool" where
  "tidy P [] = True"
| "tidy P (c # cs) = ((if P c then c = 32 \<and> (cs = [] \<or> \<not> P (hd cs)) else True) \<and> tidy P cs)"

text \<open>
  Well-typed input. A block is a mapping whose \<open>text\<close> is absent or a string, whose
  \<open>prov\<close> is absent, falsy or a list that starts with a mapping whose \<open>page_no\<close> is absent
  or an integer, and whose \<open>font_size\<close> is absent or an integer; its label and every
  other field are free. A document is a mapping whose \<open>texts\<close> is absent or a list
  (maybe empty) of such blocks. An extraction result is anything but a mapping, or a
  mapping whose \<open>title\<close>, \<open>abstract\<close> and \<open>main_text\<close> are absent or strings.
\<close>

definition str_or_absent :: "(ustr \<times> pyval) list \<Rightarrow> ustr \<Rightarrow> bool" where
  "str_or_absent d k =
     (case map_of d k of None \<Rightarrow> True | Some v \<Rightarrow> (case v of PStr s \<Rightarrow> True | _ \<Rightarrow> False))"

definition is_str :: "pyval \<Rightarrow> bool" where
  "is_str v = (case v of PStr s \<Rightarrow> True | _ \<Rightarrow> False)"

definition is_int :: "pyval \<Rightarrow> bool" where
  "is_int v = (case v of PInt n \<Rightarrow> True | PBool b \<Rightarrow> True | _ \<Rightarrow> False)"

definition int_or_absent :: "(ustr \<times> pyval) list \<Rightarrow> ustr \<Rightarrow> bool" where
  "int_or_absent d k = (case map_of d k of None \<Rightarrow> True | Some v \<Rightarrow> is_int v)"

definition prov_ok :: "(ustr \<times> pyval) list \<Rightarrow> bool" where
  "prov_ok d =
     (case map_of d (u ''prov'') of
        None \<Rightarrow> True
      | Some v \<Rightarrow>
          (if truthy v
           then (case v of
                   PList xs \<Rightarrow> (case xs of [] \<Rightarrow> True
                     | x # _ \<Rightarrow> (case x of PDict p \<Rightarrow> int_or_absent p (u ''page_no'')
                                 | _ \<Rightarrow> False))
                 | _ \<Rightarrow> False)
           else True))"

definition block_ok :: "pyval \<Rightarrow> bool" where
  "block_ok t =
     (case t of
        PDict d \<Rightarrow> str_or_absent d (u ''text'') \<and> prov_ok d \<and> int_or_absent d (u ''font_size'')
      | _ \<Rightarrow> False)"

definition doc_ok :: "pyval \<Rightarrow> bool" where
  "doc_ok doc =
     (case doc of
        PDict dd \<Rightarrow>
          (case map_of dd (u ''texts'') of
             None \<Rightarrow> True
           | Some v \<Rightarrow> (case v of PList ts \<Rightarrow> list_all block_ok ts | _ \<Rightarrow> False))
      | _ \<Rightarrow> False)"

definition result_ok :: "pyval \<Rightarrow> bool" where
  "result_ok r =
     (case r of
        PDict d \<Rightarrow> str_or_absent d (u ''title'') \<and> str_or_absent d (u ''abstract'') \<and>
                   str_or_absent d (u ''main_text'')
      | _ \<Rightarrow> True)"

text \<open>A well-typed document for the examples: a block without text, and a paragraph.\<close>

definition sample_document :: pyval where
  "sample_document = PDict [(u ''schema_name'', PStr (u ''DoclingDocument'')),
     (u ''texts'', PList [
        PDict [(u ''label'', PStr (u ''marginalia'')), (u ''prov'', PList [])],
        PDict [(u ''text'', PStr (u ''Plants make flavonoids.'')),
               (u ''prov'', PList [PDict [(u ''page_no'', PInt 2)]])]])]"

text \<open>A text of 100 words that contains \<open>introduction\<close>, for the examples.\<close>

definition hundred_words :: ustr where
  "hundred_words = u ''introduction a a a a a a a a a a a a a a a a a a a a a a a a a a a a a a a a a a a a a a a a a a a a a a a a a a a a a a a a a a a a a a a a a a a a a a a a a a a a a a a a a a a a a a a a a a a a a a a a a a a''"

section \<open>The normalizer as one pass over the gaps\<close>

text \<open>
  Re-spacing in one pass. The text is read as its non-whitespace characters and the gaps
  between them: \<open>n\<close> counts the whitespace seen since the character \<open>prev\<close>. Before a
  character \<open>c\<close> the pass writes \<open>sep prev n c\<close> spaces, and \<open>fin prev n\<close> spaces at the end.
\<close>

fun regap ::
  "(nat \<Rightarrow> bool) \<Rightarrow> (nat option \<Rightarrow> nat \<Rightarrow> nat \<Rightarrow> nat) \<Rightarrow> (nat option \<Rightarrow> nat \<Rightarrow> nat) \<Rightarrow>
   nat option \<Rightarrow> nat \<Rightarrow> ustr \<Rightarrow> ustr" where
  "regap P sep fin prev n [] = replicate (fin prev n) 32"
| "regap P sep fin prev n (c # cs) =
     (if P c then regap P sep fin prev (Suc n) cs
      else replicate (sep prev n c) 32 @ c # regap P sep fin (Some c) 0 cs)"

text \<open>
  What each step of the normalizer does to a gap, and what the whole sequence does: one
  space beside a pipe, none before punctuation, one between a lower-case and an
  upper-case letter, and otherwise one space where there was whitespace; nothing before
  the first character and nothing at the end.
\<close>

definition punct_gap :: "nat option \<Rightarrow> nat \<Rightarrow> nat \<Rightarrow> nat" where
  "punct_gap p n c = (if among (u ''.,;:?!'') c then 0 else n)"

definition pipe_gap :: "nat option \<Rightarrow> nat \<Rightarrow> nat \<Rightarrow> nat" where
  "pipe_gap p n c =
     (if p = Some 124 \<or> c = 124
      then (if p = Some 124 then 1 else 0) + (if c = 124 then 1 else 0) else n)"

definition pipe_end :: "nat option \<Rightarrow> nat \<Rightarrow> nat" where
  "pipe_end p n = (if p = Some 124 then 1 else n)"

definition after_lower :: "nat option \<Rightarrow> bool" where
  "after_lower p = (case p of None \<Rightarrow> False | Some a \<Rightarrow> rng 97 122 a)"

definition camel_gap :: "nat option \<Rightarrow> nat \<Rightarrow> nat \<Rightarrow> nat" where
  "camel_gap p n c = (if n = 0 \<and> after_lower p \<and> rng 65 90 c then 1 else n)"

definition trim_gap :: "nat option \<Rightarrow> nat \<Rightarrow> nat \<Rightarrow> nat" where
  "trim_gap p n c = (case p of None \<Rightarrow> 0 | Some a \<Rightarrow> min n 1)"

definition norm_gap :: "nat option \<Rightarrow> nat \<Rightarrow> nat \<Rightarrow> nat" where
  "norm_gap p n c =
     (case p of
        None \<Rightarrow> 0
      | Some a \<Rightarrow>
          if a = 124 \<or> c = 124 then 1
          else if among (u ''.,;:?!'') c then 0
          else if rng 97 122 a \<and> rng 65 90 c then 1
          else min n 1)"

text \<open>The characters that a later step of the normalizer removes or joins at.\<close>

definition plain_text :: "ustr \<Rightarrow> bool" where
  "plain_text s = list_all (\<lambda>c. c \<noteq> 126 \<and> c \<noteq> 45 \<and> \<not> among [338, 339, 376, 255] c) s"


section \<open>Verification\<close>

subsection \<open>Evaluation and string lemmas\<close>

lemmas ascii_defs = basic_latin_def ascii_lower_def ascii_upper_def ascii_isspace_def
  ascii_isdigit_def ascii_isupper_def ascii_islower_def

lemmas rx_defs = re_search_def re_sub_def rx_seq_def rx_lit_def rx_upper_def rx_lower_def
  rx_dot_def rx_space_def rx_digit_def rx_word_def is_word_def rng_def among_def
  word_at_def next_char_def

lemma length_py_strip_le: "length (py_strip U s) \<le> length s"
proof -
  have "length (py_strip U s) \<le> length (dropWhile (ch_isspace U) s)"
    unfolding py_strip_def
    using length_dropWhile_le [of "ch_isspace U" "rev (dropWhile (ch_isspace U) s)"] by simp
  also have "\<dots> \<le> length s" by (rule length_dropWhile_le)
  finally show ?thesis .
qed

lemma rstrip_Cons:
  "\<not> P c \<Longrightarrow> rev (dropWhile P (rev (c # cs))) = c # rev (dropWhile P (rev cs))"
  by (simp add: dropWhile_append)

lemma py_strip_idem: "py_strip U (py_strip U x) = py_strip U x"
proof -
  let ?P = "ch_isspace U"
  let ?a = "dropWhile ?P x"
  let ?y = "rev (dropWhile ?P (rev ?a))"
  have front: "dropWhile ?P ?y = ?y"
  proof (cases ?a)
    case Nil
    then show ?thesis by (simp del: dropWhile_eq_Nil_conv)
  next
    case (Cons c cs)
    then have "\<not> ?P c" using hd_dropWhile [of ?P x] by simp
    then have "?y = c # rev (dropWhile ?P (rev cs))"
      using Cons rstrip_Cons [of ?P c cs] by simp
    then show ?thesis using \<open>\<not> ?P c\<close> by simp
  qed
  have "py_strip U (py_strip U x) = rev (dropWhile ?P (rev (dropWhile ?P ?y)))"
    by (simp add: py_strip_def)
  also have "\<dots> = rev (dropWhile ?P (rev ?y))" by (simp only: front)
  also have "\<dots> = ?y" by simp
  finally show ?thesis by (simp add: py_strip_def)
qed

lemma strip_lower_ascii:
  "py_strip basic_latin (str_lower basic_latin x) = str_lower basic_latin (py_strip basic_latin x)"
proof -
  have sp: "\<And>c. ascii_isspace (ascii_lower c) = ascii_isspace c"
    by (auto simp: ascii_isspace_def ascii_lower_def)
  have dw: "\<And>ys. dropWhile ascii_isspace (map ascii_lower ys) =
      map ascii_lower (dropWhile ascii_isspace ys)"
    by (simp add: dropWhile_map comp_def sp)
  show ?thesis
    by (simp add: py_strip_def basic_latin_def dw rev_map)
qed

lemma lower_idem_ascii:
  "str_lower basic_latin (str_lower basic_latin x) = str_lower basic_latin x"
  by (simp add: basic_latin_def ascii_lower_def)

subsection \<open>The length floor of the classifiers\<close>

text \<open>
  C2 (amended). For every string of fewer than 3 characters \<open>_is_author_line\<close> returns
  false: its first test returns \<open>False\<close> for a trimmed text of fewer than 3 characters.
  \<open>_is_unwanted_content\<close> returns true for such a string whenever lower-casing does not
  make it longer, since it tests the length of the lower-cased, trimmed text.
\<close>

theorem length_floor:
  assumes "length s < 3"
  shows "\<not> is_author_line U s \<and>
         (length (str_lower U s) \<le> length s \<longrightarrow> is_unwanted_content U s)"
proof
  have "length (py_strip U s) < 3"
    using assms length_py_strip_le [of U s] by simp
  then show "\<not> is_author_line U s"
    by (simp add: is_author_line_def)
next
  show "length (str_lower U s) \<le> length s \<longrightarrow> is_unwanted_content U s"
  proof
    assume "length (str_lower U s) \<le> length s"
    then have "length (py_strip U (str_lower U s)) < 3"
      using assms length_py_strip_le [of U "str_lower U s"] by simp
    then show "is_unwanted_content U s"
      by (simp add: is_unwanted_content_def unwanted_lower_def)
  qed
qed

theorem length_floor_witness:
  "length (u ''ab'') < 3 \<and> length (str_lower basic_latin (u ''ab'')) \<le> length (u ''ab'') \<and>
   \<not> is_author_line basic_latin (u ''ab'') \<and> is_unwanted_content basic_latin (u ''ab'')"
  using length_floor [of "u ''ab''" basic_latin] by (simp add: u_def ascii_defs)

text \<open>The claim as stated fails: a two-character string is not an author line.\<close>

theorem short_author_line_counterexample:
  "length (u ''A1'') < 3 \<and> \<not> is_author_line basic_latin (u ''A1'')"
  by (simp add: is_author_line_def u_def py_strip_def ascii_defs)

subsection \<open>Case and surrounding whitespace do not matter to \<open>_is_unwanted_content\<close>\<close>

text \<open>
  C10. \<open>_is_unwanted_content\<close> depends only on the lower-cased, trimmed form of its
  input: \<open>is_unwanted_content(s)\<close> equals \<open>is_unwanted_content(lowercase(trim(s)))\<close>.
  The two properties of the case mapping that this rests on hold of CPython's:
  lower-casing a lower-cased string changes nothing, and lower-casing neither makes nor
  removes whitespace at the ends.
\<close>

theorem unwanted_case_trim_invariant:
  assumes lower_idem: "\<And>x. str_lower U (str_lower U x) = str_lower U x"
    and lower_strip: "\<And>x. py_strip U (str_lower U x) = str_lower U (py_strip U x)"
  shows "is_unwanted_content U s = is_unwanted_content U (str_lower U (py_strip U s))"
  by (simp add: is_unwanted_content_def lower_idem lower_strip py_strip_idem)

theorem unwanted_case_trim_invariant_witness:
  "is_unwanted_content basic_latin (u '' Table 3: Yields '') =
   is_unwanted_content basic_latin
     (str_lower basic_latin (py_strip basic_latin (u '' Table 3: Yields '')))"
  using unwanted_case_trim_invariant [of basic_latin "u '' Table 3: Yields ''",
    OF lower_idem_ascii strip_lower_ascii]
  by simp

subsection \<open>The two example lines\<close>

lemma author_line_by_pattern:
  "3 \<le> length (py_strip U c) \<Longrightarrow> list_ex (\<lambda>p. re_search p c) (author_patterns U) \<Longrightarrow>
   is_author_line U c"
  by (simp add: is_author_line_def)

lemma author_line_by_keyword:
  "3 \<le> length (py_strip U c) \<Longrightarrow>
   list_ex (\<lambda>p. py_in p (str_lower U c)) problematic_patterns \<Longrightarrow> is_author_line U c"
  by (simp add: is_author_line_def)

lemma name_list_matches:
  "re_search (hd (author_patterns basic_latin)) (u ''Maria Rossi, Giulia Bianchi'')"
  by (simp add: author_patterns_def name_pair_def rx_defs ascii_defs u_def)

lemma name_list_is_author:
  "is_author_line basic_latin (u ''Maria Rossi, Giulia Bianchi'')"
proof (rule author_line_by_pattern)
  show "3 \<le> length (py_strip basic_latin (u ''Maria Rossi, Giulia Bianchi''))"
    by (simp add: py_strip_def ascii_defs u_def)
  show "list_ex (\<lambda>p. re_search p (u ''Maria Rossi, Giulia Bianchi''))
          (author_patterns basic_latin)"
    using name_list_matches by (simp add: author_patterns_def)
qed

lemma via_keyword:
  "py_in (u ''via '') (str_lower basic_latin
     (u ''The catalytic mechanism proceeds via nucleophilic attack''))"
  by (simp add: ascii_defs u_def)

lemma via_sentence_is_author:
  "is_author_line basic_latin (u ''The catalytic mechanism proceeds via nucleophilic attack'')"
proof (rule author_line_by_keyword)
  show "3 \<le> length (py_strip basic_latin
          (u ''The catalytic mechanism proceeds via nucleophilic attack''))"
    by (simp add: py_strip_def ascii_defs u_def)
  have "u ''via '' \<in> set problematic_patterns"
    by (simp add: problematic_patterns_def)
  then show "list_ex (\<lambda>p. py_in p (str_lower basic_latin
      (u ''The catalytic mechanism proceeds via nucleophilic attack''))) problematic_patterns"
    using via_keyword unfolding list_ex_iff by blast
qed

text \<open>
  C3 (amended). \<open>_is_author_line("Maria Rossi, Giulia Bianchi")\<close> returns true (the
  comma-separated list of capitalised pairs), and
  \<open>_is_author_line("The catalytic mechanism proceeds via nucleophilic attack")\<close> returns
  true as well: its lower-cased form contains the address keyword \<open>"via "\<close>.
\<close>

theorem author_line_examples:
  "is_author_line basic_latin (u ''Maria Rossi, Giulia Bianchi'') \<and>
   is_author_line basic_latin (u ''The catalytic mechanism proceeds via nucleophilic attack'')"
  using name_list_is_author via_sentence_is_author by simp

text \<open>The claim as stated, true for the first line and false for the second, fails.\<close>

theorem narrative_sentence_counterexample:
  "\<not> (is_author_line basic_latin (u ''Maria Rossi, Giulia Bianchi'') \<and>
      \<not> is_author_line basic_latin
          (u ''The catalytic mechanism proceeds via nucleophilic attack''))"
  using via_sentence_is_author by simp


subsection \<open>Loops\<close>

lemmas doc_defs = ebind_def as_dict_def dget_def get_str_def truthy_def py_eq_int_def
  py_le_int_def py_gt_int_def py_iter_def get_texts_def page_no_of_def label_of_def
  is_section_header_def is_page_furniture_def any_in_def state_of_def py_for_def

lemmas block_defs = header_block_def title_block_def paragraph_block_def

lemma py_loop_append:
  "py_loop body s pre = Inr (Continue s1) \<Longrightarrow>
   py_loop body s (pre @ rest) = py_loop body s1 rest"
  by (induction pre arbitrary: s) (auto split: sum.splits ctl.splits)

subsection \<open>Title detection\<close>

lemma title_step_skip:
  "no_title U t \<Longrightarrow> title_step U ttl t = Inr (Continue ttl)"
  by (auto simp: no_title_def title_step_def level1_title_def long_header_title_def
      ebind_def as_dict_def get_str_def Let_def split: pyval.splits if_splits)

lemma title_step_level1:
  "level1_title U t = Some s \<Longrightarrow> title_step U ttl t = Inr (Break s)"
  by (auto simp: title_step_def level1_title_def
      ebind_def as_dict_def get_str_def Let_def split: pyval.splits if_splits)

lemma title_step_long:
  "long_header_title U t = Some s \<Longrightarrow> title_step U ttl t = Inr (Break s)"
  by (auto simp: title_step_def long_header_title_def
      ebind_def as_dict_def get_str_def Let_def split: pyval.splits if_splits)

lemma title_loop_skip:
  "list_all (no_title U) pre \<Longrightarrow>
   py_loop (title_step U) ttl (pre @ rest) = py_loop (title_step U) ttl rest"
  by (induction pre) (simp_all add: title_step_skip)

text \<open>
  C5 (amended). Title detection is one pass over the blocks, and the first block that
  qualifies in either way gives the title: a \<open>section_header\<close> with \<open>level == 1\<close> whose text
  excludes \<open>RESULTS\<close> and is longer than 5 characters gives its text, a \<open>section_header\<close>
  of another level whose trimmed text is longer than 20 characters and contains none of
  ABSTRACT, INTRODUCTION, EXPERIMENTAL, METHODS, RESULTS gives its trimmed text. So a
  level-1 header is the title when no block before it qualifies, the long header is used
  when no block before it qualifies (a level-1 header further on does not count), and
  the title is empty when no block qualifies.
\<close>

theorem title_first_qualifying:
  assumes "list_all (no_title U) pre"
  shows "(level1_title U b = Some s \<longrightarrow> find_title U (pre @ b # post) = Inr s) \<and>
         (long_header_title U b = Some s \<longrightarrow> find_title U (pre @ b # post) = Inr s) \<and>
         find_title U pre = Inr []"
proof (intro conjI impI)
  assume "level1_title U b = Some s"
  then show "find_title U (pre @ b # post) = Inr s"
    using assms by (simp add: find_title_def py_for_def title_loop_skip title_step_level1
        ebind_def state_of_def)
next
  assume "long_header_title U b = Some s"
  then show "find_title U (pre @ b # post) = Inr s"
    using assms by (simp add: find_title_def py_for_def title_loop_skip title_step_long
        ebind_def state_of_def)
next
  show "find_title U pre = Inr []"
    using assms title_loop_skip [of U pre "[]" "[]"]
    by (simp add: find_title_def py_for_def ebind_def state_of_def)
qed

lemma preface_gives_no_title: "list_all (no_title basic_latin) [paragraph_block ''Preface'']"
  by (simp add: no_title_def block_defs doc_defs u_def)

lemma long_header_example:
  "long_header_title basic_latin (header_block ''Flavonoids of the plant genus'')
   = Some (u ''Flavonoids of the plant genus'')"
  by (simp add: long_header_title_def block_defs doc_defs section_names_def py_strip_def
      ascii_defs u_def)

lemma level1_example:
  "level1_title basic_latin (title_block ''Novel Flavonoids from Plant X'')
   = Some (u ''Novel Flavonoids from Plant X'')"
  by (simp add: level1_title_def block_defs doc_defs ascii_defs u_def)

theorem title_first_qualifying_witness:
  "find_title basic_latin [paragraph_block ''Preface'',
      header_block ''Flavonoids of the plant genus'',
      title_block ''Novel Flavonoids from Plant X''] = Inr (u ''Flavonoids of the plant genus'') \<and>
   find_title basic_latin [paragraph_block ''Preface'',
      title_block ''Novel Flavonoids from Plant X''] = Inr (u ''Novel Flavonoids from Plant X'') \<and>
   find_title basic_latin [paragraph_block ''Preface''] = Inr []"
  using title_first_qualifying [OF preface_gives_no_title,
      of "header_block ''Flavonoids of the plant genus''"
      "u ''Flavonoids of the plant genus''" "[title_block ''Novel Flavonoids from Plant X'']"]
    title_first_qualifying [OF preface_gives_no_title,
      of "title_block ''Novel Flavonoids from Plant X''"
      "u ''Novel Flavonoids from Plant X''" "[]"]
    long_header_example level1_example
  by simp

text \<open>
  The claim as stated fails: a level-1 header qualifies, and the title is the long
  header that stands before it.
\<close>

theorem level1_not_preferred_counterexample:
  "level1_title basic_latin (title_block ''Novel Flavonoids from Plant X'')
     = Some (u ''Novel Flavonoids from Plant X'') \<and>
   find_title basic_latin [header_block ''Flavonoids of the plant genus'',
      title_block ''Novel Flavonoids from Plant X''] = Inr (u ''Flavonoids of the plant genus'') \<and>
   u ''Flavonoids of the plant genus'' \<noteq> u ''Novel Flavonoids from Plant X''"
  by (simp add: level1_title_def find_title_def title_step_def block_defs doc_defs
      section_names_def py_strip_def ascii_defs u_def)

subsection \<open>The end of the abstract\<close>

lemma abstract_is_no_stop: "\<not> any_in abstract_stops (u ''ABSTRACT'')"
  by (simp add: any_in_def abstract_stops_def u_def)

lemma abstract_step_stop:
  assumes "collecting_abstract st" "is_section_header d" "get_str d (u ''text'') = Inr s"
    "py_strip U s \<noteq> []" "any_in abstract_stops (str_upper U (py_strip U s))"
    "\<not> py_in (u ''ABSTRACT:'') (str_upper U (py_strip U s))"
  shows "abstract_step U st (PDict d) = Inr (Break st)"
proof -
  have "str_upper U (py_strip U s) \<noteq> u ''ABSTRACT''"
    using assms(5) abstract_is_no_stop by auto
  then show ?thesis
    using assms by (simp add: abstract_step_def ebind_def as_dict_def Let_def)
qed

text \<open>
  C6 (amended). In \<open>extract_paper_content\<close>, once abstract collection is active, a
  \<open>section_header\<close> block whose text contains INTRODUCTION (or EXPERIMENTAL, METHODS,
  RESULTS) and does not contain the inline marker \<open>ABSTRACT:\<close> ends the collection
  there: the collected fragments are those collected before it, so the header's text
  is not among them and no later block adds to them.
\<close>

theorem abstract_stops_at_header:
  assumes "py_loop (abstract_step U) abs_init pre = Inr (Continue st)"
    and "collecting_abstract st"
    and "is_section_header d"
    and "get_str d (u ''text'') = Inr s"
    and "py_strip U s \<noteq> []"
    and "any_in abstract_stops (str_upper U (py_strip U s))"
    and "\<not> py_in (u ''ABSTRACT:'') (str_upper U (py_strip U s))"
  shows "collect_abstract U (pre @ PDict d # post) = Inr st"
  using assms
  by (simp add: collect_abstract_def py_for_def py_loop_append abstract_step_stop
      ebind_def state_of_def)

lemma abstract_prefix_example:
  "py_loop (abstract_step basic_latin) abs_init
     [header_block ''Abstract'', paragraph_block ''We report two flavonoids.'']
   = Inr (Continue \<lparr>abstract_section = [u ''We report two flavonoids.''],
                    collecting_abstract = True\<rparr>)"
  by (simp add: abstract_step_def abs_init_def block_defs doc_defs abstract_stops_def
      metadata_markers_def py_strip_def ascii_defs u_def)

theorem abstract_stops_at_header_witness:
  "collect_abstract basic_latin
     [header_block ''Abstract'', paragraph_block ''We report two flavonoids.'',
      header_block ''1 | Introduction'', paragraph_block ''Plants make flavonoids.'']
   = Inr \<lparr>abstract_section = [u ''We report two flavonoids.''], collecting_abstract = True\<rparr>"
  using abstract_stops_at_header [of basic_latin
      "[header_block ''Abstract'', paragraph_block ''We report two flavonoids.'']"
      "\<lparr>abstract_section = [u ''We report two flavonoids.''], collecting_abstract = True\<rparr>"
      "[(u ''label'', PStr (u ''section_header'')), (u ''text'', PStr (u ''1 | Introduction''))]"
      "u ''1 | Introduction''" "[paragraph_block ''Plants make flavonoids.'']",
      OF abstract_prefix_example]
  by (simp add: block_defs doc_defs abstract_stops_def py_strip_def ascii_defs u_def)

text \<open>
  The claim as stated fails for a header that also carries the inline marker: collection
  is active, the header's text contains INTRODUCTION, and yet its text is collected
  and so is the block after it.
\<close>

theorem inline_marker_header_counterexample:
  "py_loop (abstract_step basic_latin) abs_init [header_block ''Abstract'']
     = Inr (Continue \<lparr>abstract_section = [], collecting_abstract = True\<rparr>) \<and>
   any_in abstract_stops (str_upper basic_latin (u ''Abstract: Introduction'')) \<and>
   collect_abstract basic_latin
     [header_block ''Abstract'', header_block ''Abstract: Introduction'',
      paragraph_block ''Later text'']
     = Inr \<lparr>abstract_section = [u ''Introduction'', u ''Later text''],
            collecting_abstract = True\<rparr>"
  by (simp add: collect_abstract_def abstract_step_def abs_init_def block_defs doc_defs
      abstract_stops_def metadata_markers_def py_strip_def ascii_defs u_def)

subsection \<open>The capture flags of the enhanced extractor\<close>

text \<open>
  C9. The claim is that at most one of \<open>capturing_abstract\<close>, \<open>capturing_introduction\<close>
  and \<open>capturing_main\<close> is set at every step. The scan clears the flag of the stage
  before on each transition it expects, and misses the others: after an \<open>Abstract\<close>
  header and a \<open>Methods\<close> header, with no introduction between them, both
  \<open>capturing_abstract\<close> and \<open>capturing_main\<close> are set.
\<close>

theorem capture_flags_overlap:
  "py_loop (enh_step basic_latin) enh_init [header_block ''Abstract'', header_block ''Methods'']
   = Inr (Continue (enh_init\<lparr>capturing_abstract := True, capturing_main := True\<rparr>))"
  by (simp add: enh_step_def enh_init_def block_defs doc_defs capture_if_def
      structured_heads_def main_sections_def main_stops_def py_strip_def ascii_defs u_def)

subsection \<open>Deduplication against the title\<close>

lemma keeps_piece_card:
  "keeps_piece U ttl f =
     (10 * card (set (word_set U ttl) \<inter> set (word_set U f))
        < 7 * max (card (set (word_set U ttl))) 1)"
proof -
  have d: "distinct (word_set U ttl)" by (simp add: word_set_def)
  have a: "length (filter (\<lambda>w. w \<in> set (word_set U f)) (word_set U ttl))
        = card (set (word_set U ttl) \<inter> set (word_set U f))"
    using distinct_length_filter [OF d, of "\<lambda>w. w \<in> set (word_set U f)"]
    by (simp add: Int_commute Collect_mem_eq)
  have b: "length (word_set U ttl) = card (set (word_set U ttl))"
    using distinct_card [OF d] by simp
  show ?thesis by (simp add: keeps_piece_def Let_def a b)
qed

lemma title_drops_itself: "word_set U ttl \<noteq> [] \<Longrightarrow> \<not> keeps_piece U ttl ttl"
proof -
  assume "word_set U ttl \<noteq> []"
  then have "0 < card (set (word_set U ttl))" by (simp add: card_gt_0_iff)
  then show ?thesis by (simp add: keeps_piece_card)
qed

text \<open>
  C7 (amended). In the enhanced extractor's deduplication pass, run on the assembled
  content of a title that has at least one word, the title is kept once, and every
  other fragment is removed when at least 70% of the title's lower-cased words occur
  among the fragment's lower-cased words, and kept otherwise: the share is taken of the
  title's word set, not of the fragment's.
\<close>

theorem dedup_by_title_share:
  assumes "ttl \<noteq> []" and "word_set U ttl \<noteq> []"
  shows "dedup_title U ttl (assemble ttl st) =
     ttl # filter (\<lambda>f. 10 * card (set (word_set U ttl) \<inter> set (word_set U f))
                          < 7 * card (set (word_set U ttl)))
       (abstract_content st @ introduction_content st @ take 8 (main_content st))"
proof -
  have pos: "0 < card (set (word_set U ttl))" using assms(2) by (simp add: card_gt_0_iff)
  have k: "keeps_piece U ttl = (\<lambda>f. 10 * card (set (word_set U ttl) \<inter> set (word_set U f))
                          < 7 * card (set (word_set U ttl)))"
    using pos by (auto simp: keeps_piece_card fun_eq_iff max_def)
  have "\<not> keeps_piece U ttl ttl" using assms(2) by (rule title_drops_itself)
  then show ?thesis
    using assms(1) by (simp add: dedup_title_def assemble_def k [symmetric])
qed

lemma title_words_example:
  "word_set basic_latin (u ''Novel Flavonoids from Plant X'')
     = [u ''novel'', u ''flavonoids'', u ''from'', u ''plant'', u ''x'']"
  by (simp add: word_set_def py_split_def ascii_defs u_def)

lemma shuffled_words_example:
  "word_set basic_latin (u ''Plant X: Novel Flavonoids from'')
     = [u ''plant'', u ''x:'', u ''novel'', u ''flavonoids'', u ''from'']"
  by (simp add: word_set_def py_split_def ascii_defs u_def)

lemma running_head_words_example:
  "word_set basic_latin (u ''Novel Flavonoids'') = [u ''novel'', u ''flavonoids'']"
  by (simp add: word_set_def py_split_def ascii_defs u_def)

lemmas word_examples = title_words_example shuffled_words_example running_head_words_example

theorem dedup_by_title_share_witness:
  "dedup_title basic_latin (u ''Novel Flavonoids from Plant X'')
     (assemble (u ''Novel Flavonoids from Plant X'')
        (enh_init\<lparr>abstract_content :=
           [u ''Plant X: Novel Flavonoids from'', u ''Novel Flavonoids'']\<rparr>))
   = [u ''Novel Flavonoids from Plant X'', u ''Novel Flavonoids'']"
proof -
  have ne: "u ''Novel Flavonoids from Plant X'' \<noteq> []" by (simp add: u_def)
  have ws: "word_set basic_latin (u ''Novel Flavonoids from Plant X'') \<noteq> []"
    by (simp add: title_words_example)
  show ?thesis
    unfolding dedup_by_title_share [OF ne ws]
    by (simp add: word_examples enh_init_def) (simp add: u_def)
qed

text \<open>
  The claim as stated fails: the fragment shares all its words with the title, which is
  at least 70% of them, and it is kept.
\<close>

theorem fragment_share_counterexample:
  "7 * card (set (word_set basic_latin (u ''Novel Flavonoids'')))
     \<le> 10 * card (set (word_set basic_latin (u ''Novel Flavonoids'')) \<inter>
                 set (word_set basic_latin (u ''Novel Flavonoids from Plant X''))) \<and>
   dedup_title basic_latin (u ''Novel Flavonoids from Plant X'')
     [u ''Novel Flavonoids from Plant X'', u ''Novel Flavonoids from Plant X'',
      u ''Novel Flavonoids'']
   = [u ''Novel Flavonoids from Plant X'', u ''Novel Flavonoids'']"
proof -
  have ne: "u ''Novel Flavonoids from Plant X'' \<noteq> []" by (simp add: u_def)
  have k1: "\<not> keeps_piece basic_latin (u ''Novel Flavonoids from Plant X'')
      (u ''Novel Flavonoids from Plant X'')"
    unfolding keeps_piece_card word_examples by (simp add: u_def)
  have k2: "keeps_piece basic_latin (u ''Novel Flavonoids from Plant X'')
      (u ''Novel Flavonoids'')"
    unfolding keeps_piece_card word_examples by (simp add: u_def)
  have c: "7 * card (set (word_set basic_latin (u ''Novel Flavonoids'')))
     \<le> 10 * card (set (word_set basic_latin (u ''Novel Flavonoids'')) \<inter>
                 set (word_set basic_latin (u ''Novel Flavonoids from Plant X'')))"
    unfolding word_examples by (simp add: u_def)
  show ?thesis using ne k1 k2 c by (simp add: dedup_title_def)
qed

subsection \<open>The fallback cascade\<close>

lemmas normalize_defs = normalize_text_def clean_text_def final_cleanup_def collapse_ws_def
  rx_ws_run_def one_space_def fix_punctuation_def fix_pipes_def drop_tildes_def
  split_camel_def drop_ligatures_def rejoin_hyphens_def py_strip_def

lemma dump_branch:
  "word_count U c \<le> 10 \<Longrightarrow>
   run_fallback U dump enh c = ebind dump (\<lambda>a. Inr (if a \<noteq> [] then a else c))"
  by (simp add: run_fallback_def choose_fallback_def)

lemma dump_not_read:
  "10 < word_count U c \<Longrightarrow> run_fallback U dump enh c = run_fallback U dump' enh c"
  by (simp add: run_fallback_def choose_fallback_def)

lemma dump_read_iff:
  "(word_count U c \<le> 10) = (\<exists>d d'. run_fallback U d enh c \<noteq> run_fallback U d' enh c)"
proof
  assume le: "word_count U c \<le> 10"
  have "run_fallback U (Inl TypeError) enh c \<noteq> run_fallback U (Inl KeyError) enh c"
    by (simp add: dump_branch [OF le] ebind_def)
  then show "\<exists>d d'. run_fallback U d enh c \<noteq> run_fallback U d' enh c" by blast
next
  assume "\<exists>d d'. run_fallback U d enh c \<noteq> run_fallback U d' enh c"
  then show "word_count U c \<le> 10"
    using dump_not_read [of U c] by (meson not_le_imp_less)
qed

text \<open>
  C4 (amended). In the cascade of \<open>extract_pdf_text\<close> the full-page dump is invoked (its
  outcome can change the result of the endpoint) if and only if the combined normalized
  text has 10 or fewer words; then its output replaces the text when it is not empty.
  So for an extraction result whose combined normalized text has more than 10 words the
  dump is not invoked; that the main text has more than 10 words is not enough, since
  normalization can merge words. With more than 10 words, if the text has fewer than
  100 words, or lacks \<open>introduction\<close>, or contains the problem phrase, the output of the
  enhanced extractor replaces the combined text only if it is not empty and has
  strictly more words; otherwise the combined text is returned as it is.
\<close>

theorem cascade_thresholds:
  "((word_count U c \<le> 10) = (\<exists>d d'. run_fallback U d enh c \<noteq> run_fallback U d' enh c)) \<and>
   (word_count U c \<le> 10 \<longrightarrow>
      run_fallback U dump enh c = ebind dump (\<lambda>a. Inr (if a \<noteq> [] then a else c))) \<and>
   (combine_to_paragraph U (paper_dict p) = Inr c \<longrightarrow> 10 < word_count U c \<longrightarrow>
      run_fallback U dump enh c = run_fallback U dump' enh c) \<and>
   (10 < word_count U c \<and>
    (word_count U c < 100 \<or> \<not> py_in (u ''introduction'') (str_lower U c) \<or>
     py_in (u ''phytochemical analysis'') (str_lower U c)) \<longrightarrow>
      run_fallback U dump enh c =
        ebind enh (\<lambda>e. Inr (if e \<noteq> [] \<and> word_count U c < word_count U e then e else c))) \<and>
   (100 \<le> word_count U c \<and> py_in (u ''introduction'') (str_lower U c) \<and>
    \<not> py_in (u ''phytochemical analysis'') (str_lower U c) \<longrightarrow>
      run_fallback U dump enh c = Inr c) \<and>
   apply_fallback U j c =
     run_fallback U (extract_full_page_text U j) (extract_enhanced_paper_content U j) c"
proof (intro conjI impI)
  show "(word_count U c \<le> 10) = (\<exists>d d'. run_fallback U d enh c \<noteq> run_fallback U d' enh c)"
    by (rule dump_read_iff)
next
  assume "word_count U c \<le> 10"
  then show "run_fallback U dump enh c = ebind dump (\<lambda>a. Inr (if a \<noteq> [] then a else c))"
    by (rule dump_branch)
next
  assume "10 < word_count U c"
  then show "run_fallback U dump enh c = run_fallback U dump' enh c"
    by (rule dump_not_read)
next
  assume "10 < word_count U c \<and>
    (word_count U c < 100 \<or> \<not> py_in (u ''introduction'') (str_lower U c) \<or>
     py_in (u ''phytochemical analysis'') (str_lower U c))"
  then show "run_fallback U dump enh c =
      ebind enh (\<lambda>e. Inr (if e \<noteq> [] \<and> word_count U c < word_count U e then e else c))"
    by (auto simp: run_fallback_def choose_fallback_def)
next
  assume "100 \<le> word_count U c \<and> py_in (u ''introduction'') (str_lower U c) \<and>
    \<not> py_in (u ''phytochemical analysis'') (str_lower U c)"
  then show "run_fallback U dump enh c = Inr c"
    by (auto simp: run_fallback_def choose_fallback_def)
next
  show "apply_fallback U j c =
     run_fallback U (extract_full_page_text U j) (extract_enhanced_paper_content U j) c"
    by (simp add: apply_fallback_def)
qed

lemma hyphenated_words:
  "word_count basic_latin
     (u ''pre- treatment and post- treatment of anti- inflammatory and anti- oxidant agents'')
   = 12"
  by (simp add: word_count_def py_split_def ascii_defs u_def)

lemma hyphenated_combined:
  "combine_to_paragraph basic_latin (paper_dict \<lparr>title = [], abstract = [], main_text =
     u ''pre- treatment and post- treatment of anti- inflammatory and anti- oxidant agents''\<rparr>)
   = Inr (u ''pretreatment and posttreatment of antiinflammatory and antioxidant agents'')"
  by (simp add: combine_to_paragraph_def paper_dict_def get_str_def dget_def ebind_def
      normalize_defs rx_defs ascii_defs u_def)

lemma rejoined_words:
  "word_count basic_latin
     (u ''pretreatment and posttreatment of antiinflammatory and antioxidant agents'') = 8"
  by (simp add: word_count_def py_split_def ascii_defs u_def)

lemma eleven_words:
  "word_count basic_latin
     (u ''one two three four five six seven eight nine ten eleven'') = 11"
  by (simp add: word_count_def py_split_def ascii_defs u_def)

lemma twelve_words:
  "word_count basic_latin
     (u ''one two three four five six seven eight nine ten eleven twelve'') = 12"
  by (simp add: word_count_def py_split_def ascii_defs u_def)

lemma eleven_combined:
  "combine_to_paragraph basic_latin (paper_dict \<lparr>title = [], abstract = [], main_text =
     u ''one two three four five six seven eight nine ten eleven''\<rparr>)
   = Inr (u ''one two three four five six seven eight nine ten eleven'')"
  by (simp add: combine_to_paragraph_def paper_dict_def get_str_def dget_def ebind_def
      normalize_defs rx_defs ascii_defs u_def)

lemma hundred_words_count: "word_count basic_latin hundred_words = 100"
  by (simp add: hundred_words_def word_count_def py_split_def ascii_defs u_def)

lemma hundred_words_introduction:
  "py_in (u ''introduction'') (str_lower basic_latin hundred_words) \<and>
   \<not> py_in (u ''phytochemical analysis'') (str_lower basic_latin hundred_words)"
  by (simp add: hundred_words_def ascii_defs u_def)

theorem cascade_thresholds_witness:
  "run_fallback basic_latin (Inr (u ''the early pages'')) (Inr [])
     (u ''pretreatment and posttreatment of antiinflammatory and antioxidant agents'')
     = Inr (u ''the early pages'') \<and>
   run_fallback basic_latin (Inl TypeError)
     (Inr (u ''one two three four five six seven eight nine ten eleven twelve''))
     (u ''one two three four five six seven eight nine ten eleven'')
     = Inr (u ''one two three four five six seven eight nine ten eleven twelve'') \<and>
   run_fallback basic_latin (Inl TypeError) (Inl KeyError) hundred_words = Inr hundred_words"
proof -
  have a: "run_fallback basic_latin (Inr (u ''the early pages'')) (Inr [])
     (u ''pretreatment and posttreatment of antiinflammatory and antioxidant agents'')
     = Inr (u ''the early pages'')"
    using cascade_thresholds [where U = basic_latin and dump = "Inr (u ''the early pages'')"
        and enh = "Inr []"
        and c = "u ''pretreatment and posttreatment of antiinflammatory and antioxidant agents''"]
      rejoined_words
    by (simp add: ebind_def u_def)
  have b: "run_fallback basic_latin (Inl TypeError)
     (Inr (u ''one two three four five six seven eight nine ten eleven twelve''))
     (u ''one two three four five six seven eight nine ten eleven'')
     = Inr (u ''one two three four five six seven eight nine ten eleven twelve'')"
    using cascade_thresholds [where U = basic_latin and dump = "Inl TypeError"
        and dump' = "Inl TypeError" and j = "PDict []"
        and enh = "Inr (u ''one two three four five six seven eight nine ten eleven twelve'')"
        and p = "\<lparr>title = [], abstract = [], main_text =
          u ''one two three four five six seven eight nine ten eleven''\<rparr>"
        and c = "u ''one two three four five six seven eight nine ten eleven''"]
      eleven_words twelve_words eleven_combined
    by (simp add: ebind_def) (simp add: u_def)
  have c: "run_fallback basic_latin (Inl TypeError) (Inl KeyError) hundred_words
     = Inr hundred_words"
    using cascade_thresholds [where U = basic_latin and dump = "Inl TypeError"
        and enh = "Inl KeyError" and c = hundred_words]
      hundred_words_count hundred_words_introduction
    by simp
  show ?thesis using a b c by simp
qed

text \<open>
  The claim as stated fails: the title and the abstract are empty, the main text has 12
  words, and the full-page dump is invoked and replaces the text, since rejoining the
  hyphenated words leaves 8 words in the combined text.
\<close>

theorem long_main_text_counterexample:
  "10 < word_count basic_latin
     (u ''pre- treatment and post- treatment of anti- inflammatory and anti- oxidant agents'') \<and>
   combine_to_paragraph basic_latin (paper_dict \<lparr>title = [], abstract = [], main_text =
     u ''pre- treatment and post- treatment of anti- inflammatory and anti- oxidant agents''\<rparr>)
   = Inr (u ''pretreatment and posttreatment of antiinflammatory and antioxidant agents'') \<and>
   choose_fallback basic_latin
     (u ''pretreatment and posttreatment of antiinflammatory and antioxidant agents'')
   = FullPageDump \<and>
   run_fallback basic_latin (Inr (u ''the early pages'')) (Inr [])
     (u ''pretreatment and posttreatment of antiinflammatory and antioxidant agents'')
   = Inr (u ''the early pages'')"
  by (simp add: hyphenated_words hyphenated_combined choose_fallback_def run_fallback_def
      rejoined_words ebind_def) (simp add: u_def)


subsection \<open>The normalizer\<close>

lemma class_ends_Cons:
  "rx_ends (Cls P) (q, x # xs) = (if P x then [(Some x, xs)] else [])"
  by simp

lemma class_ends_Nil: "rx_ends (Cls P) (q, []) = []"
  by simp

lemma star_iter_class_head:
  "length cs \<le> n \<Longrightarrow>
   \<exists>q' rest. star_iter (rx_ends (Cls P)) n (q, cs) = (q', dropWhile P cs) # rest"
proof (induction cs arbitrary: n q)
  case Nil
  then show ?case
    by (cases n) (simp_all add: class_ends_Nil del: rx_ends.simps)
next
  case (Cons x xs)
  then obtain m where n: "n = Suc m" and m: "length xs \<le> m" by (cases n) auto
  show ?case
  proof (cases "P x")
    case True
    from Cons.IH [OF m, of "Some x"] obtain q' rest
      where "star_iter (rx_ends (Cls P)) m (Some x, xs) = (q', dropWhile P xs) # rest" by blast
    then show ?thesis
      using True n by (simp add: class_ends_Cons del: rx_ends.simps)
  next
    case False
    then show ?thesis
      using n by (simp add: class_ends_Cons del: rx_ends.simps)
  qed
qed

lemma ws_run_ends:
  "rx_ends (Plus (Cls P)) (p, c # cs) =
     (if P c then star_iter (rx_ends (Cls P)) (length cs) (Some c, cs) else [])"
  by (simp add: class_ends_Cons del: rx_ends.simps(2))

lemma sub_ws_run_squeeze: "sub_from (Plus (Cls P)) one_space p s = squeeze P s"
proof (induction "length s" arbitrary: s p rule: less_induct)
  case less
  show ?case
  proof (cases s)
    case Nil
    then show ?thesis by simp
  next
    case (Cons c cs)
    show ?thesis
    proof (cases "P c")
      case True
      obtain q' rest where e: "star_iter (rx_ends (Cls P)) (length cs) (Some c, cs)
          = (q', dropWhile P cs) # rest"
        using star_iter_class_head [of cs "length cs" P "Some c"] by auto
      have le: "length (dropWhile P cs) \<le> length cs" by (rule length_dropWhile_le)
      then have "length (dropWhile P cs) < length s" using Cons by simp
      then have ih: "sub_from (Plus (Cls P)) one_space q' (dropWhile P cs)
          = squeeze P (dropWhile P cs)"
        by (rule less)
      show ?thesis
        using True Cons by (simp add: ws_run_ends e one_space_def le ih del: rx_ends.simps)
    next
      case False
      have "length cs < length s" using Cons by simp
      then have "sub_from (Plus (Cls P)) one_space (Some c) cs = squeeze P cs" by (rule less)
      then show ?thesis
        using False Cons by (simp add: ws_run_ends del: rx_ends.simps)
    qed
  qed
qed

lemma collapse_ws_squeeze: "collapse_ws U s = squeeze (ch_isspace U) s"
  by (simp add: collapse_ws_def rx_ws_run_def rx_space_def re_sub_def sub_ws_run_squeeze)

lemma squeeze_head: "xs \<noteq> [] \<Longrightarrow> \<not> P (hd xs) \<Longrightarrow> hd (squeeze P xs) = hd xs \<and> squeeze P xs \<noteq> []"
  by (cases xs) simp_all

lemma tidy_squeeze: "tidy P (squeeze P s)"
proof (induction P s rule: squeeze.induct)
  case (1 P)
  then show ?case by simp
next
  case (2 P c cs)
  show ?case
  proof (cases "P c")
    case True
    have "squeeze P (dropWhile P cs) = [] \<or> \<not> P (hd (squeeze P (dropWhile P cs)))"
    proof (cases "dropWhile P cs = []")
      case True
      then show ?thesis by (simp del: dropWhile_eq_Nil_conv)
    next
      case False
      then have "\<not> P (hd (dropWhile P cs))" by (rule hd_dropWhile)
      then show ?thesis using False squeeze_head [of "dropWhile P cs" P] by simp
    qed
    then show ?thesis using True 2 by simp
  next
    case False
    then show ?thesis using 2 by simp
  qed
qed

subsection \<open>Re-spacing\<close>

lemma regap_spaces:
  "P 32 \<Longrightarrow> regap P sep fin p k (replicate m 32 @ xs) = regap P sep fin p (k + m) xs"
  by (induction m arbitrary: k) simp_all

lemma regap_comp:
  assumes "P 32"
  shows "regap P s2 f2 p 0 (regap P s1 f1 p n xs) =
         regap P (\<lambda>p n c. s2 p (s1 p n c) c) (\<lambda>p n. f2 p (f1 p n)) p n xs"
proof (induction xs arbitrary: p n)
  case Nil
  show ?case
    using assms regap_spaces [of P s2 f2 p 0 "f1 p n" "[]"] by simp
next
  case (Cons c cs)
  show ?case
  proof (cases "P c")
    case True
    then show ?thesis using Cons by simp
  next
    case False
    have "regap P s2 f2 p 0 (replicate (s1 p n c) 32 @ c # regap P s1 f1 (Some c) 0 cs)
        = regap P s2 f2 p (s1 p n c) (c # regap P s1 f1 (Some c) 0 cs)"
      using assms regap_spaces [of P s2 f2 p 0 "s1 p n c"] by simp
    then show ?thesis using False Cons by simp
  qed
qed

lemma regap_cong:
  "(\<And>p n c. sep p n c = sep' p n c) \<Longrightarrow> (\<And>p n. fin p n = fin' p n) \<Longrightarrow>
   regap P sep fin p n xs = regap P sep' fin' p n xs"
  by (induction xs arbitrary: p n) simp_all

lemma regap_cong_some:
  "(\<And>a n c. sep (Some a) n c = sep' (Some a) n c) \<Longrightarrow>
   (\<And>a n. fin (Some a) n = fin' (Some a) n) \<Longrightarrow>
   regap P sep fin (Some b) n xs = regap P sep' fin' (Some b) n xs"
  by (induction xs arbitrary: b n) simp_all

lemma set_regap: "set (regap P sep fin p n xs) \<subseteq> insert 32 (set xs)"
  by (induction xs arbitrary: p n) auto

lemma squeeze_regap_aux:
  "squeeze P xs = regap P (\<lambda>p n c. min n 1) (\<lambda>p n. min n 1) p 0 xs \<and>
   32 # squeeze P (dropWhile P xs) = regap P (\<lambda>p n c. min n 1) (\<lambda>p n. min n 1) p (Suc n) xs"
proof (induction xs arbitrary: p n)
  case Nil
  show ?case by simp
next
  case (Cons c cs)
  show ?case
  proof (cases "P c")
    case True
    then show ?thesis using Cons [of p 0] Cons [of p "Suc n"] by simp
  next
    case False
    then show ?thesis using Cons [of "Some c" 0] by simp
  qed
qed

lemma squeeze_regap:
  "squeeze P xs = regap P (\<lambda>p n c. min n 1) (\<lambda>p n. min n 1) p 0 xs"
  using squeeze_regap_aux [of P xs p 0] by simp

lemma sub_nomatch_step:
  "rx_ends r (p, c # cs) = [] \<Longrightarrow> sub_from r repl p (c # cs) = c # sub_from r repl (Some c) cs"
  by simp

lemma sub_match_step:
  "rx_ends r (p, c # cs) = (q, rest) # others \<Longrightarrow> length rest \<le> length cs \<Longrightarrow>
   sub_from r repl p (c # cs) =
     repl (take (Suc (length cs) - length rest) (c # cs)) @ sub_from r repl q rest"
  by simp

lemma camel_ends:
  "rx_ends (rx_seq [rx_lower, rx_upper]) (p, s) =
     (case s of
        a # b # rest \<Rightarrow> if rng 97 122 a \<and> rng 65 90 b then [(Some b, rest)] else []
      | _ \<Rightarrow> [])"
  by (simp add: rx_seq_def rx_lower_def rx_upper_def split: list.splits)

lemma camel_regap:
  assumes ws: "\<forall>c\<in>set s. P c \<longrightarrow> c = 32"
    and start: "\<not> (n = 0 \<and> after_lower p \<and> s \<noteq> [] \<and> rng 65 90 (hd s))"
  shows "replicate n 32 @ sub_from (rx_seq [rx_lower, rx_upper])
           (\<lambda>m. take 1 m @ [32] @ drop 1 m) q s
         = regap P camel_gap (\<lambda>p n. n) p n s"
  using assms
proof (induction "length s" arbitrary: s n p q rule: less_induct)
  case less
  let ?r = "rx_seq [rx_lower, rx_upper]"
  let ?f = "\<lambda>m. take 1 m @ [32] @ drop 1 m"
  show ?case
  proof (cases s)
    case Nil
    then show ?thesis by simp
  next
    case (Cons c cs)
    show ?thesis
    proof (cases "P c")
      case True
      then have c32: "c = 32" using less.prems(1) Cons by simp
      have nm: "rx_ends ?r (q, c # cs) = []"
        using c32 by (simp add: camel_ends rng_def split: list.splits)
      have ih: "replicate (Suc n) 32 @ sub_from ?r ?f (Some c) cs
          = regap P camel_gap (\<lambda>p n. n) p (Suc n) cs"
        using less.hyps [of cs "Suc n" p "Some c"] less.prems(1) Cons by simp
      have "replicate n 32 @ c # sub_from ?r ?f (Some c) cs
          = replicate (Suc n) 32 @ sub_from ?r ?f (Some c) cs"
        using c32 by (simp add: replicate_append_same)
      then show ?thesis
        using True Cons ih by (simp only: sub_nomatch_step [OF nm] regap.simps if_True)
    next
      case False
      have gap: "camel_gap p n c = n"
        using less.prems(2) Cons by (auto simp: camel_gap_def)
      show ?thesis
      proof (cases "rng 97 122 c \<and> (\<exists>d ds. cs = d # ds \<and> rng 65 90 d)")
        case True
        then obtain d ds where cs: "cs = d # ds" and lo: "rng 97 122 c" and up: "rng 65 90 d"
          by blast
        have m: "rx_ends ?r (q, c # d # ds) = (Some d, ds) # []"
          using lo up by (simp add: camel_ends)
        have nP: "\<not> P d"
          using less.prems(1) Cons cs up by (auto simp: rng_def)
        have ih: "sub_from ?r ?f (Some d) ds = regap P camel_gap (\<lambda>p n. n) (Some d) 0 ds"
          using less.hyps [of ds 0 "Some d" "Some d"] less.prems(1) Cons cs up
          by (auto simp: after_lower_def rng_def)
        have "sub_from ?r ?f q (c # d # ds) = c # 32 # d # sub_from ?r ?f (Some d) ds"
          using sub_match_step [OF m, of ?f] by simp
        moreover have "camel_gap (Some c) 0 d = 1"
          using lo up by (simp add: camel_gap_def after_lower_def)
        ultimately show ?thesis
          using False Cons cs gap ih nP by simp
      next
        case nomatch: False
        have nm: "rx_ends ?r (q, c # cs) = []"
          using nomatch by (auto simp: camel_ends split: list.splits)
        have ih: "sub_from ?r ?f (Some c) cs = regap P camel_gap (\<lambda>p n. n) (Some c) 0 cs"
          using less.hyps [of cs 0 "Some c" "Some c"] less.prems(1) Cons nomatch
          by (cases cs) (auto simp: after_lower_def)
        show ?thesis
          using False Cons gap ih by (simp add: sub_nomatch_step [OF nm] del: sub_from.simps)
      qed
    qed
  qed
qed

lemma tidy_tail: "tidy P (c # cs) \<Longrightarrow> tidy P cs"
  by simp

lemma tidy_space: "tidy P (c # cs) \<Longrightarrow> P c \<Longrightarrow> c = 32 \<and> (cs = [] \<or> \<not> P (hd cs))"
  by simp

lemma punct_ends_other:
  "\<not> P c \<Longrightarrow> rx_ends (rx_seq [Plus (Cls P), Cls A]) (p, c # cs) = []"
  by (simp add: rx_seq_def)

lemma punct_ends_last:
  "rx_ends (rx_seq [Plus (Cls P), Cls A]) (p, [c]) = []"
  by (simp add: rx_seq_def)

lemma punct_ends_space:
  "P c \<Longrightarrow> \<not> P d \<Longrightarrow>
   rx_ends (rx_seq [Plus (Cls P), Cls A]) (p, c # d # ds) = (if A d then [(Some d, ds)] else [])"
  by (simp add: rx_seq_def)

lemma punct_regap:
  assumes "tidy P s"
  shows "sub_from (rx_seq [Plus (Cls P), Cls (among (u ''.,;:?!''))])
           (\<lambda>m. drop (length m - 1) m) q s
         = regap P punct_gap (\<lambda>p n. n) p 0 s"
  using assms
proof (induction "length s" arbitrary: s p q rule: less_induct)
  case less
  let ?A = "among (u ''.,;:?!'')"
  let ?r = "rx_seq [Plus (Cls P), Cls ?A]"
  let ?f = "\<lambda>m::ustr. drop (length m - 1) m"
  show ?case
  proof (cases s)
    case Nil
    then show ?thesis by simp
  next
    case (Cons c cs)
    have tcs: "tidy P cs" using less.prems Cons by simp
    show ?thesis
    proof (cases "P c")
      case False
      have ih: "sub_from ?r ?f (Some c) cs = regap P punct_gap (\<lambda>p n. n) (Some c) 0 cs"
        using less.hyps [of cs "Some c" "Some c"] tcs Cons by simp
      have nm: "rx_ends ?r (q, c # cs) = []"
        using False by (simp add: punct_ends_other)
      have "sub_from ?r ?f q (c # cs) = c # sub_from ?r ?f (Some c) cs"
        by (simp only: sub_nomatch_step [OF nm])
      then show ?thesis
        using False Cons ih by (simp add: punct_gap_def)
    next
      case True
      then have c32: "c = 32" and nxt: "cs = [] \<or> \<not> P (hd cs)"
        using less.prems Cons by simp_all
      show ?thesis
      proof (cases cs)
        case Nil
        have nm: "rx_ends ?r (q, [c]) = []" by (simp add: punct_ends_last)
        have "sub_from ?r ?f q [c] = [c]"
          by (simp only: sub_nomatch_step [OF nm] sub_from.simps(1))
        then show ?thesis
          using True Nil \<open>s = c # cs\<close> c32 by simp
      next
        case (Cons d ds)
        then have nd: "\<not> P d" using nxt by simp
        have tds: "tidy P ds" using tcs Cons by simp
        have ihd: "sub_from ?r ?f (Some d) ds = regap P punct_gap (\<lambda>p n. n) (Some d) 0 ds"
          using less.hyps [of ds "Some d" "Some d"] tds Cons \<open>s = c # cs\<close> by simp
        show ?thesis
        proof (cases "?A d")
          case True
          have m: "rx_ends ?r (q, c # d # ds) = (Some d, ds) # []"
            using \<open>P c\<close> nd True by (simp add: punct_ends_space)
          have "sub_from ?r ?f q (c # d # ds) = d # sub_from ?r ?f (Some d) ds"
            using sub_match_step [OF m, of ?f] by simp
          then show ?thesis
            using True \<open>P c\<close> nd Cons \<open>s = c # cs\<close> ihd by (simp add: punct_gap_def)
        next
          case False
          have m: "rx_ends ?r (q, c # d # ds) = []"
            using \<open>P c\<close> nd False by (simp add: punct_ends_space)
          have m2: "rx_ends ?r (Some c, d # ds) = []"
            using nd by (simp add: punct_ends_other)
          have "sub_from ?r ?f q (c # d # ds) = c # d # sub_from ?r ?f (Some d) ds"
            by (simp only: sub_nomatch_step [OF m] sub_nomatch_step [OF m2])
          then show ?thesis
            using False \<open>P c\<close> nd c32 Cons \<open>s = c # cs\<close> ihd by (simp add: punct_gap_def)
        qed
      qed
    qed
  qed
qed

lemma star_single:
  "cs = [] \<or> \<not> P (hd cs) \<Longrightarrow> star_iter (rx_ends (Cls P)) n (q, cs) = [(q, cs)]"
  by (cases n; cases cs) simp_all

lemma pipe_after_ends:
  "\<exists>q' others. rx_ends (rx_seq [Cls (\<lambda>x. x = 124), Star (Cls P)]) (q, 124 # cs)
     = (q', dropWhile P cs) # others"
proof -
  obtain q' others where "star_iter (rx_ends (Cls P)) (length cs) (Some 124, cs)
      = (q', dropWhile P cs) # others"
    using star_iter_class_head [of cs "length cs" P "Some 124"] by auto
  then show ?thesis
    by (simp add: rx_seq_def del: rx_ends.simps(2)) (simp add: class_ends_Cons)
qed

lemma pipe_after_none:
  "s = [] \<or> hd s \<noteq> 124 \<Longrightarrow> rx_ends (rx_seq [Cls (\<lambda>x. x = 124), Star (Cls P)]) (q, s) = []"
  by (cases s) (simp_all add: rx_seq_def)

lemma pipe_pattern:
  "rx_ends (rx_seq [Star (Cls P), rx_lit (u ''|''), Star (Cls P)]) st =
     concat (map (rx_ends (rx_seq [Cls (\<lambda>x. x = 124), Star (Cls P)]))
       (star_iter (rx_ends (Cls P)) (length (snd st)) st))"
proof -
  have "rx_ends (Seq (Seq (Cls (\<lambda>x. x = 124)) Eps) T) e = rx_ends (Seq (Cls (\<lambda>x. x = 124)) T) e"
    for T e
    by (cases e) (simp split: list.splits)
  then have "rx_ends (Seq (Seq (Cls (\<lambda>x. x = 124)) Eps) T) = rx_ends (Seq (Cls (\<lambda>x. x = 124)) T)"
    for T
    by (rule ext)
  then show ?thesis
    by (simp add: rx_seq_def rx_lit_def u_def del: rx_ends.simps(2,6))
      (simp del: rx_ends.simps(2))
qed

lemma pipe_ends_at_pipe:
  assumes "\<not> P 124"
  shows "\<exists>q' others. rx_ends (rx_seq [Star (Cls P), rx_lit (u ''|''), Star (Cls P)])
            (p, 124 # cs) = (q', dropWhile P cs) # others"
proof -
  have s: "star_iter (rx_ends (Cls P)) (length (124 # cs)) (p, 124 # cs) = [(p, 124 # cs)]"
    using assms by (intro star_single) simp
  show ?thesis
    using pipe_after_ends [of P p cs]
    by (simp only: pipe_pattern snd_conv s) simp
qed

lemma pipe_ends_space_pipe:
  assumes "P c" and "\<not> P 124"
  shows "\<exists>q' others. rx_ends (rx_seq [Star (Cls P), rx_lit (u ''|''), Star (Cls P)])
            (p, c # 124 # ds) = (q', dropWhile P ds) # others"
proof -
  have one: "star_iter (rx_ends (Cls P)) (length ds) (Some c, 124 # ds) = [(Some c, 124 # ds)]"
    using assms(2) by (intro star_single) simp
  have s: "star_iter (rx_ends (Cls P)) (length (c # 124 # ds)) (p, c # 124 # ds)
      = [(Some c, 124 # ds), (p, c # 124 # ds)]"
    using assms one by (simp add: class_ends_Cons del: rx_ends.simps)
  obtain q' others where e: "rx_ends (rx_seq [Cls (\<lambda>x. x = 124), Star (Cls P)]) (Some c, 124 # ds)
      = (q', dropWhile P ds) # others"
    using pipe_after_ends [of P "Some c" ds] by blast
  show ?thesis
    by (simp only: pipe_pattern snd_conv s) (simp add: e del: rx_ends.simps)
qed

lemma pipe_ends_none_char:
  assumes "\<not> P c" and "c \<noteq> 124"
  shows "rx_ends (rx_seq [Star (Cls P), rx_lit (u ''|''), Star (Cls P)]) (p, c # cs) = []"
proof -
  have s: "star_iter (rx_ends (Cls P)) (length (c # cs)) (p, c # cs) = [(p, c # cs)]"
    using assms(1) by (intro star_single) simp
  show ?thesis
    using assms(2) by (simp only: pipe_pattern snd_conv s) (simp add: pipe_after_none)
qed

lemma pipe_ends_none_space:
  assumes "P c" and "c \<noteq> 124" and "cs = [] \<or> (\<not> P (hd cs) \<and> hd cs \<noteq> 124)"
  shows "rx_ends (rx_seq [Star (Cls P), rx_lit (u ''|''), Star (Cls P)]) (p, c # cs) = []"
proof -
  have one: "star_iter (rx_ends (Cls P)) (length cs) (Some c, cs) = [(Some c, cs)]"
    using assms(3) by (intro star_single) auto
  have s: "star_iter (rx_ends (Cls P)) (length (c # cs)) (p, c # cs)
      = [(Some c, cs), (p, c # cs)]"
    using assms(1) one by (simp add: class_ends_Cons del: rx_ends.simps)
  have a: "rx_ends (rx_seq [Cls (\<lambda>x. x = 124), Star (Cls P)]) (Some c, cs) = []"
    using assms(3) by (intro pipe_after_none) auto
  have b: "rx_ends (rx_seq [Cls (\<lambda>x. x = 124), Star (Cls P)]) (p, c # cs) = []"
    using assms(2) by (intro pipe_after_none) simp
  show ?thesis
    by (simp only: pipe_pattern snd_conv s) (simp add: a b del: rx_ends.simps)
qed

lemma pipe_sub_pipe:
  assumes "\<not> P 124"
  shows "\<exists>q'. sub_from (rx_seq [Star (Cls P), rx_lit (u ''|''), Star (Cls P)]) (\<lambda>m. u '' | '') q
            (124 # cs)
          = [32, 124, 32] @ sub_from (rx_seq [Star (Cls P), rx_lit (u ''|''), Star (Cls P)])
              (\<lambda>m. u '' | '') q' (dropWhile P cs)"
proof -
  obtain q' others where e: "rx_ends (rx_seq [Star (Cls P), rx_lit (u ''|''), Star (Cls P)])
      (q, 124 # cs) = (q', dropWhile P cs) # others"
    using pipe_ends_at_pipe [where P = P and p = q and cs = cs] assms by blast
  have len: "length (dropWhile P cs) \<le> length cs" by (rule length_dropWhile_le)
  show ?thesis
    by (rule exI [of _ q']) (simp only: sub_match_step [OF e len], simp add: u_def)
qed

lemma pipe_sub_space_pipe:
  assumes "P c" and "\<not> P 124"
  shows "\<exists>q'. sub_from (rx_seq [Star (Cls P), rx_lit (u ''|''), Star (Cls P)]) (\<lambda>m. u '' | '') q
            (c # 124 # ds)
          = [32, 124, 32] @ sub_from (rx_seq [Star (Cls P), rx_lit (u ''|''), Star (Cls P)])
              (\<lambda>m. u '' | '') q' (dropWhile P ds)"
proof -
  obtain q' others where e: "rx_ends (rx_seq [Star (Cls P), rx_lit (u ''|''), Star (Cls P)])
      (q, c # 124 # ds) = (q', dropWhile P ds) # others"
    using pipe_ends_space_pipe [where P = P and c = c and p = q and ds = ds] assms by blast
  have "length (dropWhile P ds) \<le> length ds" by (rule length_dropWhile_le)
  then have len: "length (dropWhile P ds) \<le> length (124 # ds)" by simp
  show ?thesis
    by (rule exI [of _ q']) (simp only: sub_match_step [OF e len], simp add: u_def)
qed

lemma pipe_sub_char:
  assumes "\<not> P c" and "c \<noteq> 124"
  shows "sub_from (rx_seq [Star (Cls P), rx_lit (u ''|''), Star (Cls P)]) repl q (c # cs)
          = c # sub_from (rx_seq [Star (Cls P), rx_lit (u ''|''), Star (Cls P)]) repl (Some c) cs"
  using assms by (intro sub_nomatch_step pipe_ends_none_char)

lemma pipe_sub_space:
  assumes "P c" and "c \<noteq> 124" and "cs = [] \<or> (\<not> P (hd cs) \<and> hd cs \<noteq> 124)"
  shows "sub_from (rx_seq [Star (Cls P), rx_lit (u ''|''), Star (Cls P)]) repl q (c # cs)
          = c # sub_from (rx_seq [Star (Cls P), rx_lit (u ''|''), Star (Cls P)]) repl (Some c) cs"
  using assms by (intro sub_nomatch_step pipe_ends_none_space)

lemma tidy_pipe: "tidy P s \<Longrightarrow> 124 \<in> set s \<Longrightarrow> \<not> P 124"
  by (induction s) (auto split: if_splits)

lemma pipe_regap:
  assumes "tidy P s"
  shows "(p \<noteq> Some 124 \<longrightarrow>
           sub_from (rx_seq [Star (Cls P), rx_lit (u ''|''), Star (Cls P)]) (\<lambda>m. u '' | '') q s
             = regap P pipe_gap pipe_end p 0 s) \<and>
         32 # sub_from (rx_seq [Star (Cls P), rx_lit (u ''|''), Star (Cls P)]) (\<lambda>m. u '' | '') q
                (dropWhile P s)
           = regap P pipe_gap pipe_end (Some 124) 0 s"
  using assms
proof (induction "length s" arbitrary: s p q rule: less_induct)
  case less
  let ?R = "rx_seq [Star (Cls P), rx_lit (u ''|''), Star (Cls P)]"
  let ?F = "\<lambda>m::ustr. u '' | ''"
  have ihA: "sub_from ?R ?F q' t = regap P pipe_gap pipe_end p' 0 t"
    if "length t < length s" and "tidy P t" and "p' \<noteq> Some 124" for t p' q'
    using less.hyps [OF that(1) that(2), of p' q'] that(3) by simp
  have ihB: "32 # sub_from ?R ?F q' (dropWhile P t) = regap P pipe_gap pipe_end (Some 124) 0 t"
    if "length t < length s" and "tidy P t" for t q'
    using less.hyps [OF that(1) that(2), of None q'] by simp
  show ?case
  proof (cases s)
    case Nil
    then show ?thesis by (simp add: pipe_end_def)
  next
    case (Cons c cs)
    have tcs: "tidy P cs" using less.prems Cons by simp
    have lcs: "length cs < length s" using Cons by simp
    show ?thesis
    proof (cases "P c")
      case False
      show ?thesis
      proof (cases "c = 124")
        case True
        have n124: "\<not> P 124" using False True by simp
        obtain q' where st: "sub_from ?R ?F q (124 # cs)
            = [32, 124, 32] @ sub_from ?R ?F q' (dropWhile P cs)"
          using pipe_sub_pipe [where P = P and q = q and cs = cs] n124 by blast
        have b: "32 # sub_from ?R ?F q' (dropWhile P cs)
            = regap P pipe_gap pipe_end (Some 124) 0 cs"
          by (rule ihB [OF lcs tcs])
        have "sub_from ?R ?F q s = 32 # 124 # regap P pipe_gap pipe_end (Some 124) 0 cs"
          using st b Cons True by simp
        moreover have "dropWhile P s = s" using False Cons by simp
        ultimately show ?thesis
          using Cons True n124 by (simp add: pipe_gap_def)
      next
        case c: False
        have st: "sub_from ?R ?F q (c # cs) = c # sub_from ?R ?F (Some c) cs"
          using False c by (intro pipe_sub_char)
        have a: "sub_from ?R ?F (Some c) cs = regap P pipe_gap pipe_end (Some c) 0 cs"
          using c by (intro ihA [OF lcs tcs]) simp
        have "sub_from ?R ?F q s = c # regap P pipe_gap pipe_end (Some c) 0 cs"
          using st a Cons by simp
        moreover have "dropWhile P s = s" using False Cons by simp
        ultimately show ?thesis
          using Cons c False by (simp add: pipe_gap_def)
      qed
    next
      case True
      then have c32: "c = 32" and nxt: "cs = [] \<or> \<not> P (hd cs)"
        using less.prems Cons by simp_all
      have dw: "dropWhile P s = cs"
        using True nxt Cons by (cases cs) auto
      show ?thesis
      proof (cases cs)
        case Nil
        have "sub_from ?R ?F q [c] = [c]"
          using pipe_sub_space [of P c "[]" ?F q] True c32 by simp
        then show ?thesis
          using Cons Nil True c32 dw by (simp add: pipe_end_def)
      next
        case (Cons d ds)
        have nd: "\<not> P d" using nxt Cons by simp
        have tds: "tidy P ds" using tcs Cons by simp
        have lds: "length ds < length s" using Cons \<open>s = c # cs\<close> by simp
        show ?thesis
        proof (cases "d = 124")
          case True
          have n124: "\<not> P 124" using nd True by simp
          obtain q1 where st1: "sub_from ?R ?F q (c # 124 # ds)
              = [32, 124, 32] @ sub_from ?R ?F q1 (dropWhile P ds)"
            using pipe_sub_space_pipe [where P = P and c = c and q = q and ds = ds] \<open>P c\<close> n124 by blast
          obtain q2 where st2: "sub_from ?R ?F q (124 # ds)
              = [32, 124, 32] @ sub_from ?R ?F q2 (dropWhile P ds)"
            using pipe_sub_pipe [where P = P and q = q and cs = ds] n124 by blast
          have b1: "32 # sub_from ?R ?F q1 (dropWhile P ds)
              = regap P pipe_gap pipe_end (Some 124) 0 ds"
            by (rule ihB [OF lds tds])
          have b2: "32 # sub_from ?R ?F q2 (dropWhile P ds)
              = regap P pipe_gap pipe_end (Some 124) 0 ds"
            by (rule ihB [OF lds tds])
          have A: "sub_from ?R ?F q s = 32 # 124 # regap P pipe_gap pipe_end (Some 124) 0 ds"
            using st1 b1 Cons True \<open>s = c # cs\<close> by simp
          have B: "sub_from ?R ?F q cs = 32 # 124 # regap P pipe_gap pipe_end (Some 124) 0 ds"
            using st2 b2 Cons True by simp
          have r: "regap P pipe_gap pipe_end p' 0 s
              = replicate (pipe_gap p' 1 124) 32 @ 124 # regap P pipe_gap pipe_end (Some 124) 0 ds"
            for p'
            using Cons True \<open>s = c # cs\<close> \<open>P c\<close> n124 by simp
          show ?thesis
            using A B dw by (simp add: r pipe_gap_def)
        next
          case d: False
          have st1: "sub_from ?R ?F q (c # d # ds) = c # sub_from ?R ?F (Some c) (d # ds)"
            using True c32 nd d by (intro pipe_sub_space) simp_all
          have st2: "sub_from ?R ?F q' (d # ds) = d # sub_from ?R ?F (Some d) ds" for q'
            using nd d by (intro pipe_sub_char)
          have a: "sub_from ?R ?F (Some d) ds = regap P pipe_gap pipe_end (Some d) 0 ds"
            using d by (intro ihA [OF lds tds]) simp
          have A: "sub_from ?R ?F q s = 32 # d # regap P pipe_gap pipe_end (Some d) 0 ds"
            using st1 st2 a Cons c32 \<open>s = c # cs\<close> by simp
          have B: "sub_from ?R ?F q cs = d # regap P pipe_gap pipe_end (Some d) 0 ds"
            using st2 a Cons by simp
          have r: "regap P pipe_gap pipe_end p' 0 s
              = replicate (pipe_gap p' 1 d) 32 @ d # regap P pipe_gap pipe_end (Some d) 0 ds"
            for p'
            using Cons \<open>s = c # cs\<close> \<open>P c\<close> nd by simp
          show ?thesis
            using A B dw d by (simp add: r pipe_gap_def)
        qed
      qed
    qed
  qed
qed

lemma sub_nomatch:
  assumes "\<And>p t. set t \<subseteq> S \<Longrightarrow> rx_ends r (p, t) = []"
  shows "set s \<subseteq> S \<Longrightarrow> sub_from r repl q s = s"
proof (induction s arbitrary: q)
  case Nil
  show ?case by simp
next
  case (Cons c cs)
  have nm: "rx_ends r (q, c # cs) = []" using Cons.prems by (rule assms)
  have "sub_from r repl (Some c) cs = cs" using Cons by simp
  then show ?case by (simp only: sub_nomatch_step [OF nm])
qed

lemma star_iter_sub:
  assumes "\<And>st e. e \<in> set (f st) \<Longrightarrow> set (snd e) \<subseteq> set (snd st)"
  shows "e \<in> set (star_iter f n st) \<Longrightarrow> set (snd e) \<subseteq> set (snd st)"
proof (induction n arbitrary: st e)
  case 0
  then show ?case by simp
next
  case (Suc n)
  show ?case
  proof (cases "e = st")
    case True
    then show ?thesis by simp
  next
    case False
    then obtain e' where e': "e' \<in> set (f st)" and e: "e \<in> set (star_iter f n e')"
      using Suc.prems by auto
    have "set (snd e) \<subseteq> set (snd e')" using e by (rule Suc.IH)
    moreover have "set (snd e') \<subseteq> set (snd st)" using e' by (rule assms)
    ultimately show ?thesis by blast
  qed
qed

lemma class_ends_sub: "e \<in> set (rx_ends (Cls P) st) \<Longrightarrow> set (snd e) \<subseteq> set (snd st)"
  by (cases st) (auto split: list.splits if_splits)

lemma lit_star_none:
  assumes "k \<notin> set t"
  shows "rx_ends (rx_seq [Star (Cls P), rx_lit [k], Star (Cls P)]) (p, t) = []"
proof -
  have sub: "set (snd e) \<subseteq> set t" if "e \<in> set (star_iter (rx_ends (Cls P)) (length t) (p, t))" for e
    using star_iter_sub [of "rx_ends (Cls P)" e "length t" "(p, t)"] class_ends_sub that
    by fastforce
  let ?X = "Seq (Seq (Cls (\<lambda>x. x = k)) Eps) (Seq (Star (Cls P)) Eps)"
  have none: "rx_ends ?X e = []"
    if "e \<in> set (star_iter (rx_ends (Cls P)) (length t) (p, t))" for e
    using sub [OF that] assms by (cases e) (auto split: list.splits)
  have "rx_ends (Seq (Star (Cls P)) ?X) (p, t)
      = concat (map (rx_ends ?X) (star_iter (rx_ends (Cls P)) (length t) (p, t)))"
    by (simp del: rx_ends.simps(2))
  also have "\<dots> = []" using none by simp
  finally show ?thesis by (simp only: rx_seq_def rx_lit_def list.map foldr.simps o_apply id_apply)
qed

lemma drop_tildes_plain: "126 \<notin> set s \<Longrightarrow> drop_tildes U s = s"
proof -
  assume a: "126 \<notin> set s"
  have "rx_ends (rx_seq [Star (Cls (ch_isspace U)), rx_lit [126], Star (Cls (ch_isspace U))]) (p, t) = []"
    if "set t \<subseteq> set s" for p t
    using that a by (intro lit_star_none) auto
  then have "sub_from (rx_seq [Star (Cls (ch_isspace U)), rx_lit [126], Star (Cls (ch_isspace U))])
      one_space None s = s"
    by (intro sub_nomatch [where S = "set s"]) simp_all
  then show ?thesis
    by (simp add: drop_tildes_def re_sub_def rx_space_def u_def)
qed

lemma drop_ligatures_plain: "\<forall>c\<in>set s. \<not> among [338, 339, 376, 255] c \<Longrightarrow> drop_ligatures s = s"
proof -
  assume a: "\<forall>c\<in>set s. \<not> among [338, 339, 376, 255] c"
  have "rx_ends (Cls (among [338, 339, 376, 255])) (p, t) = []" if "set t \<subseteq> set s" for p t
    using that a by (cases t) auto
  then have "sub_from (Cls (among [338, 339, 376, 255])) (\<lambda>m. []) None s = s"
    by (intro sub_nomatch [where S = "set s"]) simp_all
  then show ?thesis by (simp add: drop_ligatures_def re_sub_def)
qed

lemma rejoin_hyphens_plain: "45 \<notin> set s \<Longrightarrow> rejoin_hyphens U s = s"
proof -
  assume a: "45 \<notin> set s"
  have "rx_ends (Seq (Cls W) (Seq (Seq (Cls (\<lambda>x. x = 45)) Eps) T)) (p, t) = []"
    if "set t \<subseteq> set s" for p t W T
  proof (cases t)
    case Nil
    then show ?thesis by simp
  next
    case (Cons c cs)
    have inner: "rx_ends (Seq (Seq (Cls (\<lambda>x. x = 45)) Eps) T) (Some c, cs) = []"
      using that a Cons by (cases cs) auto
    have step: "rx_ends (Seq (Cls W) Y) (p, c # cs) = (if W c then rx_ends Y (Some c, cs) else [])"
      for Y
      by simp
    show ?thesis unfolding Cons by (simp only: step inner if_cancel)
  qed
  then have "sub_from (Seq (Cls W) (Seq (Seq (Cls (\<lambda>x. x = 45)) Eps) T)) repl None s = s" for W T repl
    by (intro sub_nomatch [where S = "set s"]) simp_all
  then show ?thesis
    by (simp add: rejoin_hyphens_def re_sub_def rx_seq_def rx_lit_def rx_word_def u_def)
qed

lemma replace_newline: "py_replace [10] [32] s = map (\<lambda>c. if c = 10 then 32 else c) s"
  by (induction s) simp_all

lemma replace_newline_id: "10 \<notin> set s \<Longrightarrow> py_replace [10] [32] s = s"
  by (induction s) simp_all

lemma regap_ws: "c \<in> set (regap P sep fin p n xs) \<Longrightarrow> P c \<Longrightarrow> c = 32"
  by (induction xs arbitrary: p n) (auto split: if_splits)

lemma regap_set: "c \<in> set (regap P sep fin p n xs) \<Longrightarrow> c = 32 \<or> c \<in> set xs"
  using set_regap [of P sep fin p n xs] by auto

lemma tidy_regap:
  assumes "\<And>p n c. sep p n c \<le> 1" and "\<And>p n. fin p n \<le> 1"
  shows "tidy P (regap P sep fin p n xs)"
proof (induction xs arbitrary: p n)
  case Nil
  have "fin p n = 0 \<or> fin p n = 1" using assms(2) [of p n] by arith
  then show ?case by auto
next
  case (Cons c cs)
  show ?case
  proof (cases "P c")
    case True
    then show ?thesis using Cons by simp
  next
    case False
    have "sep p n c = 0 \<or> sep p n c = 1" using assms(1) [of p n c] by arith
    then show ?thesis using False Cons by auto
  qed
qed

lemma lstrip_regap:
  assumes "P 32"
  shows "dropWhile P (regap P sep fin None n xs)
         = regap P (\<lambda>p n c. case p of None \<Rightarrow> 0 | Some a \<Rightarrow> sep p n c)
             (\<lambda>p n. case p of None \<Rightarrow> 0 | Some a \<Rightarrow> fin p n) None n xs"
proof (induction xs arbitrary: n)
  case Nil
  show ?case using assms by simp
next
  case (Cons c cs)
  show ?case
  proof (cases "P c")
    case True
    then show ?thesis using Cons by simp
  next
    case False
    have "regap P sep fin (Some c) 0 cs
        = regap P (\<lambda>p n c. case p of None \<Rightarrow> 0 | Some a \<Rightarrow> sep p n c)
            (\<lambda>p n. case p of None \<Rightarrow> 0 | Some a \<Rightarrow> fin p n) (Some c) 0 cs"
      by (rule regap_cong_some) simp_all
    then show ?thesis using False assms by (simp add: dropWhile_append)
  qed
qed

lemma rstrip_keep:
  "\<not> P c \<Longrightarrow> rev (dropWhile P (rev (xs @ c # rest))) = xs @ c # rev (dropWhile P (rev rest))"
  by (simp add: dropWhile_append)

lemma rstrip_regap:
  assumes "P 32"
  shows "rev (dropWhile P (rev (regap P sep fin p n xs))) = regap P sep (\<lambda>p n. 0) p n xs"
proof (induction xs arbitrary: p n)
  case Nil
  show ?case using assms by simp
next
  case (Cons c cs)
  show ?case
  proof (cases "P c")
    case True
    then show ?thesis using Cons by simp
  next
    case False
    then show ?thesis
      using Cons [of "Some c" 0]
        rstrip_keep [of P c "replicate (sep p n c) 32" "regap P sep fin (Some c) 0 cs"]
      by simp
  qed
qed

lemma final_cleanup_regap:
  assumes "ch_isspace U 32"
  shows "final_cleanup U s = regap (ch_isspace U) trim_gap (\<lambda>p n. 0) None 0 s"
proof -
  let ?P = "ch_isspace U"
  have "final_cleanup U s
      = rev (dropWhile ?P (rev (dropWhile ?P
          (regap ?P (\<lambda>p n c. min n 1) (\<lambda>p n. min n 1) None 0 s))))"
    using squeeze_regap [of ?P s None]
    by (simp add: final_cleanup_def collapse_ws_squeeze py_strip_def)
  also have "\<dots> = regap ?P (\<lambda>p n c. case p of None \<Rightarrow> 0 | Some a \<Rightarrow> min n 1) (\<lambda>p n. 0) None 0 s"
    by (simp only: lstrip_regap [where P = "?P", OF assms] rstrip_regap [where P = "?P", OF assms])
  also have "\<dots> = regap ?P trim_gap (\<lambda>p n. 0) None 0 s"
    by (rule regap_cong) (simp_all add: trim_gap_def)
  finally show ?thesis .
qed

lemma plain_text_iff:
  "plain_text s = (\<forall>c\<in>set s. c \<noteq> 126 \<and> c \<noteq> 45 \<and> \<not> among [338, 339, 376, 255] c)"
  by (simp add: plain_text_def list_all_iff)

lemma plain_space: "\<not> among [338, 339, 376, 255] 32"
  by (simp add: among_def)

lemma plain_regap:
  assumes "plain_text xs"
  shows "plain_text (regap P sep fin p n xs)"
  unfolding plain_text_iff
proof
  fix c
  assume "c \<in> set (regap P sep fin p n xs)"
  then have "c = 32 \<or> c \<in> set xs" by (rule regap_set)
  then show "c \<noteq> 126 \<and> c \<noteq> 45 \<and> \<not> among [338, 339, 376, 255] c"
  proof
    assume "c = 32"
    then show ?thesis using plain_space by simp
  next
    assume "c \<in> set xs"
    then show ?thesis using assms by (simp add: plain_text_iff)
  qed
qed

lemma plain_replace:
  assumes "plain_text s"
  shows "plain_text (py_replace [10] [32] s)"
  unfolding plain_text_iff replace_newline
proof
  fix c
  assume "c \<in> set (map (\<lambda>c. if c = 10 then 32 else c) s)"
  then have "c = 32 \<or> c \<in> set s" by (auto split: if_splits)
  then show "c \<noteq> 126 \<and> c \<noteq> 45 \<and> \<not> among [338, 339, 376, 255] c"
  proof
    assume "c = 32"
    then show ?thesis using plain_space by simp
  next
    assume "c \<in> set s"
    then show ?thesis using assms by (simp add: plain_text_iff)
  qed
qed

lemma norm_gap_compose:
  "trim_gap p (camel_gap p (pipe_gap p (punct_gap p (min n 1) c) c) c) c = norm_gap p n c"
proof (cases p)
  case None
  then show ?thesis by (simp add: trim_gap_def norm_gap_def)
next
  case (Some a)
  have "\<not> (among (u ''.,;:?!'') c \<and> rng 65 90 c)"
    by (auto simp: among_def rng_def u_def)
  then show ?thesis
    using Some
    by (auto simp: trim_gap_def norm_gap_def camel_gap_def pipe_gap_def punct_gap_def
        after_lower_def)
qed

lemma norm_gap_idem: "norm_gap p (norm_gap p n c) c = norm_gap p n c"
  by (cases p) (simp_all add: norm_gap_def)

lemma normalize_regap:
  assumes sp: "ch_isspace U 32" and plain: "plain_text s"
  shows "normalize_text U s
         = regap (ch_isspace U) norm_gap (\<lambda>p n. 0) None 0 (py_replace [10] [32] s)"
proof -
  let ?P = "ch_isspace U"
  let ?s1 = "py_replace [10] [32] s"
  let ?G3 = "\<lambda>p n c. punct_gap p (min n 1) c"
  let ?F3 = "\<lambda>(p::nat option) n::nat. min n 1"
  let ?G4 = "\<lambda>p n c. pipe_gap p (punct_gap p (min n 1) c) c"
  let ?F4 = "\<lambda>p n::nat. pipe_end p (min n 1)"
  let ?G6 = "\<lambda>p n c. camel_gap p (pipe_gap p (punct_gap p (min n 1) c) c) c"
  let ?G9 = "\<lambda>p n c. trim_gap p (camel_gap p (pipe_gap p (punct_gap p (min n 1) c) c) c) c"
  define t2 where "t2 = collapse_ws U ?s1"
  define t3 where "t3 = fix_punctuation U t2"
  define t4 where "t4 = fix_pipes U t3"
  define t6 where "t6 = split_camel t4"
  have p1: "plain_text ?s1" using plain by (rule plain_replace)
  have e2: "t2 = regap ?P (\<lambda>p n c. min n 1) ?F3 None 0 ?s1"
    using squeeze_regap [of ?P ?s1 None] by (simp add: t2_def collapse_ws_squeeze)
  have tidy2: "tidy ?P t2" by (simp add: t2_def collapse_ws_squeeze tidy_squeeze)
  have "t3 = regap ?P punct_gap (\<lambda>p n. n) None 0 t2"
    using punct_regap [OF tidy2, of None None]
    by (simp add: t3_def fix_punctuation_def re_sub_def rx_space_def)
  then have e3: "t3 = regap ?P ?G3 ?F3 None 0 ?s1"
    using regap_comp [of ?P punct_gap "\<lambda>p n. n" None "\<lambda>p n c. min n 1" ?F3 0 ?s1] sp
    by (simp add: e2)
  have tidy3: "tidy ?P t3"
    unfolding e3 by (rule tidy_regap) (simp_all add: punct_gap_def)
  have "t4 = regap ?P pipe_gap pipe_end None 0 t3"
    using pipe_regap [OF tidy3, of None None]
    by (simp add: t4_def fix_pipes_def re_sub_def rx_space_def)
  then have e4: "t4 = regap ?P ?G4 ?F4 None 0 ?s1"
    using regap_comp [of ?P pipe_gap pipe_end None ?G3 ?F3 0 ?s1] sp
    by (simp add: e3)
  have plain4: "plain_text t4" unfolding e4 using p1 by (rule plain_regap)
  have ws4: "\<forall>c\<in>set t4. ?P c \<longrightarrow> c = 32"
    unfolding e4 using regap_ws by blast
  have "t6 = regap ?P camel_gap (\<lambda>p n. n) None 0 t4"
    using camel_regap [of t4 ?P 0 None None] ws4
    by (simp add: t6_def split_camel_def re_sub_def after_lower_def)
  then have e6: "t6 = regap ?P ?G6 ?F4 None 0 ?s1"
    using regap_comp [of ?P camel_gap "\<lambda>p n. n" None ?G4 ?F4 0 ?s1] sp
    by (simp add: e4)
  have plain6: "plain_text t6" unfolding e6 using p1 by (rule plain_regap)
  have d5: "drop_tildes U t4 = t4"
    using plain4 by (intro drop_tildes_plain) (auto simp: plain_text_iff)
  have d7: "drop_ligatures t6 = t6"
    using plain6 by (intro drop_ligatures_plain) (auto simp: plain_text_iff)
  have d8: "rejoin_hyphens U t6 = t6"
    using plain6 by (intro rejoin_hyphens_plain) (auto simp: plain_text_iff)
  have "normalize_text U s
      = final_cleanup U (rejoin_hyphens U (drop_ligatures (split_camel (drop_tildes U t4))))"
    by (simp add: normalize_text_def t4_def t3_def t2_def)
  also have "\<dots> = final_cleanup U t6"
    unfolding d5 t6_def [symmetric] d7 d8 by (rule refl)
  also have "\<dots> = regap ?P trim_gap (\<lambda>p n. 0) None 0 t6"
    using sp by (rule final_cleanup_regap)
  also have "\<dots> = regap ?P ?G9 (\<lambda>p n. 0) None 0 ?s1"
    using regap_comp [of ?P trim_gap "\<lambda>p n. 0" None ?G6 ?F4 0 ?s1] sp
    by (simp add: e6)
  also have "\<dots> = regap ?P norm_gap (\<lambda>p n. 0) None 0 ?s1"
    by (rule regap_cong, rule norm_gap_compose, rule refl)
  finally show ?thesis .
qed

lemma no_newline_replace: "10 \<notin> set (py_replace [10] [32] s)"
  by (auto simp: replace_newline)

lemma regap_twice:
  assumes "P 32"
  shows "regap P norm_gap (\<lambda>p n. 0) None 0 (regap P norm_gap (\<lambda>p n. 0) None 0 xs)
         = regap P norm_gap (\<lambda>p n. 0) None 0 xs"
proof -
  have "regap P norm_gap (\<lambda>p n. 0) None 0 (regap P norm_gap (\<lambda>p n. 0) None 0 xs)
      = regap P (\<lambda>p n c. norm_gap p (norm_gap p n c) c) (\<lambda>p n. 0) None 0 xs"
    using regap_comp [of P norm_gap "\<lambda>p n. 0" None norm_gap "\<lambda>p n. 0" 0 xs] assms by simp
  also have "\<dots> = regap P norm_gap (\<lambda>p n. 0) None 0 xs"
    by (rule regap_cong) (simp_all add: norm_gap_idem)
  finally show ?thesis .
qed

lemma normalize_plain_fixed:
  assumes sp: "ch_isspace U 32" and plain: "plain_text s"
  shows "plain_text (normalize_text U s) \<and>
         py_replace [10] [32] (normalize_text U s) = normalize_text U s"
proof -
  let ?s1 = "py_replace [10] [32] s"
  have e: "normalize_text U s = regap (ch_isspace U) norm_gap (\<lambda>p n. 0) None 0 ?s1"
    using sp plain by (rule normalize_regap)
  have p: "plain_text (normalize_text U s)"
    unfolding e using plain by (intro plain_regap plain_replace)
  have "10 \<notin> set (normalize_text U s)"
    unfolding e using regap_set [of 10 "ch_isspace U" norm_gap "\<lambda>p n. 0" None 0 ?s1]
      no_newline_replace [of s] by auto
  then show ?thesis using p by (simp add: replace_newline_id)
qed

text \<open>
  C8 (amended). The text normalizer is idempotent on every string that contains no tilde,
  no hyphen and none of the four characters that the ligature step deletes (code points
  338, 339, 376 and 255): for such a string, applying the whole normalization sequence
  twice gives the same string as applying it once. The character table is any table in
  which the space is a whitespace character, as it is in Python. On the other strings
  the sequence is not idempotent in general: a later step can leave behind what an
  earlier step would have repaired.
\<close>

theorem normalize_idempotent_on_plain_text:
  assumes "ch_isspace U 32" and "plain_text s"
  shows "normalize_text U (normalize_text U s) = normalize_text U s"
proof -
  let ?P = "ch_isspace U"
  let ?t = "normalize_text U s"
  have e: "?t = regap ?P norm_gap (\<lambda>p n. 0) None 0 (py_replace [10] [32] s)"
    using assms by (rule normalize_regap)
  have f: "plain_text ?t" and g: "py_replace [10] [32] ?t = ?t"
    using normalize_plain_fixed [OF assms] by simp_all
  have "normalize_text U ?t = regap ?P norm_gap (\<lambda>p n. 0) None 0 (py_replace [10] [32] ?t)"
    using assms(1) f by (rule normalize_regap)
  also have "\<dots> = regap ?P norm_gap (\<lambda>p n. 0) None 0 ?t" by (simp only: g)
  also have "\<dots> = ?t"
    using regap_twice [of ?P "py_replace [10] [32] s"] assms(1) e by simp
  finally show ?thesis .
qed

theorem normalize_idempotent_on_plain_text_witness:
  "normalize_text basic_latin (u ''fig |a ,bC  d'') = u ''fig | a,b C d'' \<and>
   normalize_text basic_latin (u ''fig | a,b C d'') = u ''fig | a,b C d''"
proof -
  have a: "normalize_text basic_latin (u ''fig |a ,bC  d'') = u ''fig | a,b C d''"
    by (simp add: normalize_defs rx_defs ascii_defs u_def)
  have sp: "ch_isspace basic_latin 32"
    by (simp add: ascii_defs)
  have pl: "plain_text (u ''fig |a ,bC  d'')"
    by (simp add: plain_text_def among_def u_def)
  have "normalize_text basic_latin (normalize_text basic_latin (u ''fig |a ,bC  d''))
      = normalize_text basic_latin (u ''fig |a ,bC  d'')"
    using normalize_idempotent_on_plain_text [of basic_latin "u ''fig |a ,bC  d''"] sp pl
    by simp
  then show ?thesis by (simp only: a simp_thms)
qed

text \<open>
  The claim as stated fails: the tilde goes after the spaces before punctuation were
  removed, and leaves a space before the full stop that a second run removes.
\<close>

theorem normalize_twice_counterexample:
  "normalize_text basic_latin (u ''approx ~. 5 g'') = u ''approx . 5 g'' \<and>
   normalize_text basic_latin (normalize_text basic_latin (u ''approx ~. 5 g'')) = u ''approx. 5 g''"
proof -
  have a: "normalize_text basic_latin (u ''approx ~. 5 g'') = u ''approx . 5 g''"
    by (simp add: normalize_defs rx_defs ascii_defs u_def)
  have b: "normalize_text basic_latin (u ''approx . 5 g'') = u ''approx. 5 g''"
    by (simp add: normalize_defs rx_defs ascii_defs u_def)
  show ?thesis by (simp add: a b)
qed

text \<open>
  The hyphen and the deleted letters are excluded for the same reason. The hyphen step
  joins a lower-case letter to an upper-case one after the split at a change of case has
  run, and the deleted letter goes after the spaces before punctuation were removed.
\<close>

lemma rejoined_hyphen_not_stable:
  "normalize_text basic_latin (u ''a- Bc'') = u ''aBc'' \<and>
   normalize_text basic_latin (u ''aBc'') = u ''a Bc''"
proof -
  have a: "normalize_text basic_latin (u ''a- Bc'') = u ''aBc''"
    by (simp add: normalize_defs rx_defs ascii_defs u_def)
  have b: "normalize_text basic_latin (u ''aBc'') = u ''a Bc''"
    by (simp add: normalize_defs rx_defs ascii_defs u_def)
  show ?thesis by (simp add: a b)
qed

lemma deleted_letter_not_stable:
  "normalize_text basic_latin [97, 32, 255, 32, 46] = [97, 32, 46] \<and>
   normalize_text basic_latin [97, 32, 46] = [97, 46]"
proof -
  have a: "normalize_text basic_latin [97, 32, 255, 32, 46] = [97, 32, 46]"
    by (simp add: normalize_defs rx_defs ascii_defs u_def)
  have b: "normalize_text basic_latin [97, 32, 46] = [97, 46]"
    by (simp add: normalize_defs rx_defs ascii_defs u_def)
  show ?thesis by (simp add: a b)
qed

subsection \<open>Totality on well-typed input\<close>

lemma ebind_total:
  "\<not> isl m \<Longrightarrow> (\<And>x. m = Inr x \<Longrightarrow> \<not> isl (f x)) \<Longrightarrow> \<not> isl (ebind m f)"
  by (cases m) (simp_all add: ebind_def)

lemma not_isl_conv: "(\<not> isl m) = (\<exists>x. m = Inr x)"
  by (cases m) simp_all

lemma int_compare_total:
  "is_int v \<Longrightarrow> \<not> isl (py_le_int v k) \<and> \<not> isl (py_gt_int v k)"
  by (cases v) (simp_all add: is_int_def py_le_int_def py_gt_int_def)

lemma block_okD:
  assumes "block_ok t"
  obtains d s v where "t = PDict d" "get_str d (u ''text'') = Inr s"
    "page_no_of d = Inr v" "page_no_checked d = Inr v" "is_int v"
    "is_int (dget d (u ''font_size'') (PInt 0))"
proof -
  from assms obtain d where t: "t = PDict d" and tx: "str_or_absent d (u ''text'')"
    and pr: "prov_ok d" and fs: "int_or_absent d (u ''font_size'')"
    by (auto simp: block_ok_def split: pyval.splits)
  from tx obtain s where s: "get_str d (u ''text'') = Inr s"
    by (auto simp: str_or_absent_def get_str_def dget_def split: option.splits pyval.splits)
  from pr obtain v where v: "page_no_of d = Inr v" "page_no_checked d = Inr v" "is_int v"
    by (auto simp: prov_ok_def page_no_of_def page_no_checked_def dget_def truthy_def
        int_or_absent_def is_int_def as_dict_def ebind_def Let_def
        split: option.splits pyval.splits list.splits if_splits)
  from fs have f: "is_int (dget d (u ''font_size'') (PInt 0))"
    by (auto simp: int_or_absent_def dget_def is_int_def split: option.splits)
  from t s v f show thesis by (rule that)
qed

lemma title_step_total: "block_ok t \<Longrightarrow> \<not> isl (title_step U s t)"
  by (erule block_okD) (simp add: title_step_def ebind_def as_dict_def Let_def)

lemma abstract_step_total: "block_ok t \<Longrightarrow> \<not> isl (abstract_step U s t)"
  by (erule block_okD) (simp add: abstract_step_def ebind_def as_dict_def Let_def)

lemma main_step_total: "block_ok t \<Longrightarrow> \<not> isl (main_step U s t)"
proof (erule block_okD)
  fix d x v
  assume a: "t = PDict d" "get_str d (u ''text'') = Inr x" "page_no_of d = Inr v" "is_int v"
  obtain b where "py_le_int v 6 = Inr b"
    using int_compare_total [OF a(4), of 6] by (auto simp: not_isl_conv)
  then show ?thesis
    using a by (simp add: main_step_def ebind_def as_dict_def Let_def)
qed

lemma lenient_step_total: "block_ok t \<Longrightarrow> \<not> isl (lenient_step U s t)"
proof (erule block_okD)
  fix d x v
  assume a: "t = PDict d" "get_str d (u ''text'') = Inr x" "page_no_of d = Inr v" "is_int v"
  obtain b where "py_gt_int v 3 = Inr b"
    using int_compare_total [OF a(4), of 3] by (auto simp: not_isl_conv)
  then show ?thesis
    using a by (simp add: lenient_step_def ebind_def as_dict_def Let_def)
qed

lemma title_backfill_step_total: "block_ok t \<Longrightarrow> \<not> isl (title_backfill_step U s t)"
proof (erule block_okD)
  fix d x
  assume a: "t = PDict d" "get_str d (u ''text'') = Inr x"
    "is_int (dget d (u ''font_size'') (PInt 0))"
  obtain b where "py_gt_int (dget d (u ''font_size'') (PInt 0)) 12 = Inr b"
    using int_compare_total [OF a(3), of 12] by (auto simp: not_isl_conv)
  then show ?thesis
    using a by (simp add: title_backfill_step_def ebind_def as_dict_def Let_def)
qed

lemma abstract_backfill_step_total: "block_ok t \<Longrightarrow> \<not> isl (abstract_backfill_step U s t)"
  by (erule block_okD) (simp add: abstract_backfill_step_def ebind_def as_dict_def Let_def)

lemma enh_title_step_total: "block_ok t \<Longrightarrow> \<not> isl (enh_title_step U s t)"
  by (erule block_okD) (simp add: enh_title_step_def ebind_def as_dict_def Let_def)

lemma capture_if_total:
  "is_int v \<Longrightarrow> \<exists>r. capture_if U flag v k content buf = Inr r"
  using int_compare_total [of v k]
  by (auto simp: capture_if_def ebind_def not_isl_conv)

lemma enh_step_total: "block_ok t \<Longrightarrow> \<not> isl (enh_step U s t)"
proof (erule block_okD)
  fix d x v
  assume a: "t = PDict d" "get_str d (u ''text'') = Inr x" "page_no_of d = Inr v" "is_int v"
  have c: "\<And>flag k content buf. \<not> isl (capture_if U flag v k content buf)"
    using capture_if_total [OF a(4)] by (simp add: not_isl_conv)
  have "\<not> isl (ebind (capture_if U f1 v 3 c1 b1) (\<lambda>a.
          ebind (capture_if U f2 v 5 c1 b2) (\<lambda>i.
          ebind (capture_if U f3 v 6 c1 b3) (\<lambda>m. Inr (g a i m)))))" for f1 f2 f3 c1 b1 b2 b3
      and g :: "ustr list \<Rightarrow> ustr list \<Rightarrow> ustr list \<Rightarrow> enh_state ctl"
    by (intro ebind_total c) simp
  then show ?thesis
    using a by (simp add: enh_step_def ebind_def [of "Inr _"] as_dict_def Let_def)
qed

lemma rebuild_step_total: "block_ok t \<Longrightarrow> \<not> isl (rebuild_step U s t)"
proof (erule block_okD)
  fix d x v
  assume a: "t = PDict d" "get_str d (u ''text'') = Inr x" "page_no_of d = Inr v" "is_int v"
  obtain b where "py_gt_int v 4 = Inr b"
    using int_compare_total [OF a(4), of 4] by (auto simp: not_isl_conv)
  then show ?thesis
    using a by (simp add: rebuild_step_def ebind_def as_dict_def Let_def)
qed

lemma early_step_total: "block_ok t \<Longrightarrow> \<not> isl (early_step U s t)"
proof (erule block_okD)
  fix d x v
  assume a: "t = PDict d" "get_str d (u ''text'') = Inr x" "page_no_checked d = Inr v"
    "is_int v"
  obtain b where "py_le_int v 3 = Inr b"
    using int_compare_total [OF a(4), of 3] by (auto simp: not_isl_conv)
  then show ?thesis
    using a by (simp add: early_step_def ebind_def as_dict_def Let_def)
qed

lemma first_blocks_step_total: "block_ok t \<Longrightarrow> \<not> isl (first_blocks_step U s t)"
  by (erule block_okD) (simp add: first_blocks_step_def ebind_def as_dict_def Let_def)

lemma py_loop_total:
  assumes "\<And>s t. block_ok t \<Longrightarrow> \<not> isl (body s t)"
  shows "list_all block_ok ts \<Longrightarrow> \<not> isl (py_loop body s ts)"
proof (induction ts arbitrary: s)
  case Nil
  then show ?case by simp
next
  case (Cons t ts)
  then have "\<not> isl (body s t)" using assms by simp
  then obtain c where c: "body s t = Inr c" by (auto simp: not_isl_conv)
  show ?case using Cons c by (cases c) simp_all
qed

lemma py_for_total:
  assumes "\<And>s t. block_ok t \<Longrightarrow> \<not> isl (body s t)" and "list_all block_ok ts"
  shows "\<not> isl (py_for body s ts)"
  using py_loop_total [of body ts s, OF assms]
  by (auto simp: py_for_def ebind_def not_isl_conv)

lemmas loop_total =
  py_for_total [of "title_step U", OF title_step_total]
  py_for_total [of "abstract_step U", OF abstract_step_total]
  py_for_total [of "main_step U", OF main_step_total]
  py_for_total [of "lenient_step U", OF lenient_step_total]
  py_for_total [of "title_backfill_step U", OF title_backfill_step_total]
  py_for_total [of "abstract_backfill_step U", OF abstract_backfill_step_total]
  py_for_total [of "enh_title_step U", OF enh_title_step_total]
  py_for_total [of "enh_step U", OF enh_step_total]
  py_for_total [of "rebuild_step U", OF rebuild_step_total]
  py_for_total [of "early_step U", OF early_step_total]
  py_for_total [of "first_blocks_step U", OF first_blocks_step_total]
  for U

lemma texts_ok: "doc_ok doc \<Longrightarrow> get_texts doc = Inr ts \<Longrightarrow> list_all block_ok ts"
  by (auto simp: doc_ok_def get_texts_def as_dict_def ebind_def dget_def py_iter_def
      split: pyval.splits option.splits)

lemma get_texts_total: "doc_ok doc \<Longrightarrow> \<not> isl (get_texts doc)"
  by (auto simp: doc_ok_def get_texts_def as_dict_def ebind_def dget_def py_iter_def
      split: pyval.splits option.splits)

lemma take_blocks_ok: "list_all block_ok ts \<Longrightarrow> list_all block_ok (take n ts)"
  by (auto simp: list_all_iff dest: in_set_takeD)

lemma extract_paper_content_total:
  assumes "doc_ok doc"
  shows "\<not> isl (extract_paper_content U doc)"
  unfolding extract_paper_content_def find_title_def collect_abstract_def Let_def
  by (intro ebind_total)
    (auto simp: get_texts_total [OF assms] loop_total dest: texts_ok [OF assms])

lemma result_dicts_ok: "result_ok (paper_dict q)" "result_ok error_dict"
  by (simp_all add: result_ok_def paper_dict_def error_dict_def str_or_absent_def u_def)

lemma result_ok_total:
  "\<not> isl m \<Longrightarrow> (\<And>x. m = Inr x \<Longrightarrow> (\<exists>r. f x = Inr r \<and> result_ok r)) \<Longrightarrow>
   \<exists>r. ebind m f = Inr r \<and> result_ok r"
  by (cases m) (simp_all add: ebind_def)

lemma extract_from_docling_document_total:
  assumes "doc_ok doc"
  shows "\<exists>r. extract_from_docling_document U doc = Inr r \<and> result_ok r"
proof -
  obtain dd where dd: "doc = PDict dd" using assms by (auto simp: doc_ok_def split: pyval.splits)
  then obtain b where b: "is_docling doc = Inr b" by (simp add: is_docling_def)
  obtain ts where ts: "get_texts doc = Inr ts"
    using get_texts_total [OF assms] by (auto simp: not_isl_conv)
  have ok: "list_all block_ok ts" using assms ts by (rule texts_ok)
  obtain p where p: "extract_paper_content U doc = Inr p"
    using extract_paper_content_total [OF assms] by (auto simp: not_isl_conv)
  have inner: "\<not> isl (ebind (py_for (abstract_backfill_step U) [] ts) (\<lambda>x. Inr (g x)))"
    for g :: "ustr list \<Rightarrow> ustr"
    by (intro ebind_total) (simp_all add: loop_total ok)
  have fill: "\<exists>r. ebind (if title p = [] then py_for (title_backfill_step U) (title p) ts
                      else Inr (title p))
        (\<lambda>ttl. ebind (if abstract p = []
                      then ebind (py_for (abstract_backfill_step U) [] ts) (\<lambda>abstract_texts.
                             Inr (if abstract_texts \<noteq> []
                                  then py_join (u '' '') abstract_texts else abstract p))
                      else Inr (abstract p))
           (\<lambda>abstr. Inr (paper_dict (p\<lparr>title := ttl, abstract := abstr\<rparr>)))) = Inr r \<and>
      result_ok r"
    by (intro result_ok_total ebind_total) (auto simp: loop_total ok result_dicts_ok inner)
  show ?thesis
    using fill by (auto simp: extract_from_docling_document_def b p ts ebind_def [of "Inr _"]
        result_dicts_ok)
qed

lemma extract_enhanced_paper_content_total:
  assumes "doc_ok doc"
  shows "\<not> isl (extract_enhanced_paper_content U doc)"
  unfolding extract_enhanced_paper_content_def Let_def
  by (intro ebind_total)
    (auto simp: get_texts_total [OF assms] loop_total dest: texts_ok [OF assms])

lemma extract_full_page_text_total:
  assumes "doc_ok doc"
  shows "\<not> isl (extract_full_page_text U doc)"
  unfolding extract_full_page_text_def
  by (intro ebind_total)
    (auto simp: get_texts_total [OF assms] loop_total take_blocks_ok dest: texts_ok [OF assms])

lemma combine_to_paragraph_total:
  assumes "result_ok r"
  shows "\<exists>c. combine_to_paragraph U r = Inr c"
proof (cases r)
  case (PDict d)
  then have "\<exists>t a m. get_str d (u ''title'') = Inr t \<and> get_str d (u ''abstract'') = Inr a \<and>
      get_str d (u ''main_text'') = Inr m"
    using assms
    by (auto simp: result_ok_def str_or_absent_def get_str_def dget_def
        split: option.splits pyval.splits)
  then show ?thesis
    using PDict by (auto simp: combine_to_paragraph_def ebind_def Let_def)
qed (simp_all add: combine_to_paragraph_def)

lemma extract_pdf_text_total:
  assumes "doc_ok doc"
  shows "\<exists>t. extract_pdf_text U doc = Inr t"
proof -
  obtain r where r: "extract_from_docling_document U doc = Inr r" "result_ok r"
    using extract_from_docling_document_total [OF assms] by blast
  obtain c where c: "combine_to_paragraph U r = Inr c"
    using combine_to_paragraph_total [OF r(2)] by blast
  obtain f where f: "extract_full_page_text U doc = Inr f"
    using extract_full_page_text_total [OF assms] by (auto simp: not_isl_conv)
  obtain e where e: "extract_enhanced_paper_content U doc = Inr e"
    using extract_enhanced_paper_content_total [OF assms] by (auto simp: not_isl_conv)
  show ?thesis
    by (cases "choose_fallback U c")
      (simp_all add: extract_pdf_text_def apply_fallback_def run_fallback_def r(1) c f e
        ebind_def)
qed

lemma name_word_call_eq: "name_word_call U word = Inr (is_name_word U word)"
proof (cases "clean_word_of U word")
  case Nil
  then show ?thesis
    by (simp add: name_word_call_def is_name_word_def clean_word_of_def Let_def)
next
  case (Cons c rest)
  then show ?thesis
    by (simp add: name_word_call_def is_name_word_def clean_word_of_def Let_def
        py_index0_def ebind_def)
qed

lemma name_word_loop:
  "py_loop (name_word_step U) acc ws =
     Inr (Continue (acc @ map (clean_word_of U) (filter (is_name_word U) ws)))"
  by (induction ws arbitrary: acc)
    (simp_all add: name_word_step_def name_word_call_eq ebind_def)

lemma many_names_call_eq: "many_names_call U content = Inr (many_names U content)"
  by (simp add: many_names_call_def many_names_def py_for_def name_word_loop ebind_def
      state_of_def Let_def)

lemma is_author_line_call_eq: "is_author_line_call U (PStr s) = Inr (is_author_line U s)"
  by (simp add: is_author_line_call_def is_author_line_def many_names_call_eq ebind_def Let_def)

lemma is_unwanted_content_call_eq:
  "is_unwanted_content_call U (PStr s) = Inr (is_unwanted_content U s)"
  by (simp add: is_unwanted_content_call_def is_unwanted_content_def)

lemma title_step_error: "title_step U ttl t = Inl e \<Longrightarrow> e = AttributeError"
  by (auto simp: title_step_def ebind_def as_dict_def get_str_def Let_def
      split: pyval.splits if_splits)

lemma title_loop_error: "py_loop (title_step U) ttl ts = Inl e \<Longrightarrow> e = AttributeError"
proof (induction ts arbitrary: ttl)
  case Nil
  then show ?case by simp
next
  case (Cons t ts)
  then show ?case
    by (auto split: sum.splits ctl.splits dest: title_step_error)
qed

lemma find_title_error: "find_title U ts = Inl e \<Longrightarrow> e = AttributeError"
  by (cases "py_loop (title_step U) [] ts")
    (auto simp: find_title_def py_for_def ebind_def dest: title_loop_error)

lemma bad_text_stops_abstract:
  assumes "map_of d (u ''text'') = Some v" and "\<not> is_str v"
  shows "collect_abstract U (PDict d # rest) = Inl AttributeError"
  using assms
  by (cases v)
    (simp_all add: collect_abstract_def py_for_def abstract_step_def ebind_def as_dict_def
      get_str_def dget_def is_str_def)

lemma bad_first_block_raises:
  assumes "get_texts doc = Inr (PDict d # rest)"
    and "map_of d (u ''text'') = Some v" and "\<not> is_str v"
  shows "extract_paper_content U doc = Inl AttributeError"
proof (cases "find_title U (PDict d # rest)")
  case (Inl e)
  then show ?thesis
    using assms(1) find_title_error [OF Inl]
    by (simp add: extract_paper_content_def ebind_def)
next
  case (Inr ttl)
  then show ?thesis
    using assms(1) bad_text_stops_abstract [OF assms(2,3)]
    by (simp add: extract_paper_content_def ebind_def)
qed

text \<open>
  C1 (amended). The classifier and extraction functions return a value, and raise
  nothing, on every well-typed input. Called with a string, \<open>_is_author_line\<close> and
  \<open>_is_unwanted_content\<close> return a truth value: the one index they read,
  \<open>clean_word[0]\<close>, is read only behind the test \<open>len(clean_word) > 1\<close>. For every
  document whose \<open>texts\<close> is absent or a list (maybe empty) of mappings in which \<open>text\<close>
  is absent or a string, \<open>prov\<close> is absent, falsy or a list starting with a mapping whose
  \<open>page_no\<close> is absent or an integer, and \<open>font_size\<close> is absent or an integer (labels and
  all other fields are free), \<open>extract_paper_content\<close>, \<open>extract_from_docling_document\<close>,
  \<open>extract_enhanced_paper_content\<close>, \<open>extract_full_page_text\<close> and the whole cascade
  return a value; \<open>combine_to_paragraph\<close> returns a value for every input that is no
  mapping and for every mapping whose \<open>title\<close>, \<open>abstract\<close> and \<open>main_text\<close> are absent or
  strings. Malformed input can raise: a first block that is a mapping whose \<open>text\<close> is
  present and not a string makes \<open>extract_paper_content\<close> raise \<open>AttributeError\<close>.
\<close>

theorem extraction_total_on_typed_input:
  "is_author_line_call U (PStr s) = Inr (is_author_line U s) \<and>
   is_unwanted_content_call U (PStr s) = Inr (is_unwanted_content U s) \<and>
   (doc_ok doc \<longrightarrow>
      (\<exists>p. extract_paper_content U doc = Inr p) \<and>
      (\<exists>r. extract_from_docling_document U doc = Inr r) \<and>
      (\<exists>e. extract_enhanced_paper_content U doc = Inr e) \<and>
      (\<exists>f. extract_full_page_text U doc = Inr f) \<and>
      (\<exists>t. extract_pdf_text U doc = Inr t)) \<and>
   (result_ok r \<longrightarrow> (\<exists>c. combine_to_paragraph U r = Inr c)) \<and>
   (get_texts bad = Inr (PDict d # rest) \<longrightarrow> map_of d (u ''text'') = Some v \<longrightarrow> \<not> is_str v \<longrightarrow>
      extract_paper_content U bad = Inl AttributeError)"
  using extract_paper_content_total [of doc U] extract_from_docling_document_total [of doc U]
    extract_enhanced_paper_content_total [of doc U] extract_full_page_text_total [of doc U]
    extract_pdf_text_total [of doc U] combine_to_paragraph_total [of r U]
    bad_first_block_raises [of bad d rest v U]
  unfolding not_isl_conv
  by (simp add: is_author_line_call_eq is_unwanted_content_call_eq) blast

lemma sample_document_ok: "doc_ok sample_document"
  by (simp add: sample_document_def doc_ok_def block_ok_def str_or_absent_def prov_ok_def
      int_or_absent_def is_int_def truthy_def u_def)

lemma sample_result_ok: "result_ok (PDict [(u ''title'', PStr (u ''Flavonoids''))])"
  by (simp add: result_ok_def str_or_absent_def u_def)

lemma bad_sample_texts:
  "get_texts (PDict [(u ''texts'', PList [PDict [(u ''text'', PInt 7)], paragraph_block ''x''])])
   = Inr (PDict [(u ''text'', PInt 7)] # [paragraph_block ''x''])"
  by (simp add: get_texts_def as_dict_def ebind_def dget_def py_iter_def)

theorem extraction_total_on_typed_input_witness:
  "is_author_line_call basic_latin (PStr (u ''ab'')) = Inr (is_author_line basic_latin (u ''ab'')) \<and>
   is_unwanted_content_call basic_latin (PStr (u ''ab''))
     = Inr (is_unwanted_content basic_latin (u ''ab'')) \<and>
   doc_ok sample_document \<and>
   (\<exists>p. extract_paper_content basic_latin sample_document = Inr p) \<and>
   (\<exists>r. extract_from_docling_document basic_latin sample_document = Inr r) \<and>
   (\<exists>e. extract_enhanced_paper_content basic_latin sample_document = Inr e) \<and>
   (\<exists>f. extract_full_page_text basic_latin sample_document = Inr f) \<and>
   (\<exists>t. extract_pdf_text basic_latin sample_document = Inr t) \<and>
   result_ok (PDict [(u ''title'', PStr (u ''Flavonoids''))]) \<and>
   (\<exists>c. combine_to_paragraph basic_latin (PDict [(u ''title'', PStr (u ''Flavonoids''))]) = Inr c) \<and>
   extract_paper_content basic_latin
     (PDict [(u ''texts'', PList [PDict [(u ''text'', PInt 7)], paragraph_block ''x''])])
     = Inl AttributeError"
  using extraction_total_on_typed_input [of basic_latin "u ''ab''" sample_document
      "PDict [(u ''title'', PStr (u ''Flavonoids''))]"
      "PDict [(u ''texts'', PList [PDict [(u ''text'', PInt 7)], paragraph_block ''x''])]"
      "[(u ''text'', PInt 7)]" "[paragraph_block ''x'']" "PInt 7"]
    sample_document_ok sample_result_ok bad_sample_texts
  by (simp add: is_str_def)

text \<open>The claim as stated fails: a block whose \<open>text\<close> is \<open>None\<close> makes the extractor raise.\<close>

theorem non_string_text_counterexample:
  "extract_paper_content basic_latin
     (PDict [(u ''texts'', PList [PDict [(u ''text'', PNone)]])]) = Inl AttributeError"
  by (simp add: extract_paper_content_def find_title_def collect_abstract_def title_step_def
      abstract_step_def abs_init_def doc_defs u_def)


end
